theory Spec2Isabelle
  imports Complex_Main
begin

section \<open>EARL: the population network (model.py) and the runner (runner.py)\<close>

subsection \<open>Errors, tensors and the tensor store\<close>

text \<open>
  Every Python exception the two source files can raise by themselves is a value of
  \<open>error\<close>; \<open>CollaboratorError\<close> stands for a failure inside a collaborator that is not
  part of the two files (gym, the storage, the evolutionary operator, the logger).
\<close>

datatype error =
    IndexError
  | AttributeError
  | RuntimeError
  | UnboundLocalError
  | ValueError
  | ZeroDivisionError
  | CollaboratorError

text \<open>
  A torch tensor is a shape and the flat list of its elements. Tensors are mutable objects
  and \<open>detach()\<close> and \<open>state_dict()\<close> return tensors that share the storage of the
  parameter they come from, so tensors live in a store and the program handles addresses.
\<close>

type_synonym addr = nat

record 'a tensor =
  shape :: "nat list"
  data :: "'a list"

type_synonym 'a store = "addr \<Rightarrow> 'a tensor"

text \<open>
  A layer (an \<open>nn.Module\<close> made by \<open>_add_layer\<close>) is seen through the two things the
  source reads: \<open>named_parameters()\<close>, in declaration order, and the persistent buffers
  that \<open>state_dict()\<close> holds besides them. A head is a \<open>ModuleList\<close> of layers.
\<close>

record layer =
  named_parameters :: "(string \<times> addr) list"
  named_buffers :: "(string \<times> addr) list"

type_synonym head_block = "layer list"

type_synonym param_bundle = "addr list list"

text \<open>torch keeps the names of the parameters and buffers of one module distinct.\<close>

definition layer_wf :: "layer \<Rightarrow> bool" where
  "layer_wf l = distinct (map fst (named_parameters l @ named_buffers l))"

definition nets_wf :: "head_block list \<Rightarrow> bool" where
  "nets_wf policy_nets = (\<forall>individual \<in> set policy_nets. \<forall>l \<in> set individual. layer_wf l)"

subsection \<open>extract_params\<close>

text \<open>\<open>parameter.detach()\<close>: a new tensor object on the same storage.\<close>

definition detach :: "addr \<Rightarrow> addr" where
  "detach parameter = parameter"

text \<open>
  The three nested loops of \<open>extract_params\<close>. \<open>layer_params\<close> is created once per
  individual and every layer appends to it, so an individual's entry is one flat list.
\<close>

definition extract_layer :: "addr list \<Rightarrow> layer \<Rightarrow> addr list" where
  "extract_layer layer_params l =
     foldl (\<lambda>acc (name, parameter). acc @ [detach parameter]) layer_params (named_parameters l)"

definition extract_individual :: "head_block \<Rightarrow> addr list" where
  "extract_individual individual = foldl extract_layer [] individual"

definition extract_params :: "head_block list \<Rightarrow> param_bundle" where
  "extract_params policy_nets =
     foldl (\<lambda>extracted_parameters individual.
              extracted_parameters @ [extract_individual individual]) [] policy_nets"

subsection \<open>insert_params\<close>

text \<open>Indexing a Python list with a non-negative index.\<close>

definition py_index :: "'x list \<Rightarrow> nat \<Rightarrow> error + 'x" where
  "py_index xs i = (if i < length xs then Inr (xs ! i) else Inl IndexError)"

text \<open>\<open>layer.state_dict()\<close>: the parameters and buffers by name.\<close>

definition state_dict :: "layer \<Rightarrow> (string \<rightharpoonup> addr)" where
  "state_dict l = map_of (named_parameters l @ named_buffers l)"

text \<open>\<^verbatim>\<open>incoming_params[pop_idx][params_idx]\<close>: two list accesses, each can raise.\<close>

definition bundle_entry :: "param_bundle \<Rightarrow> nat \<Rightarrow> nat \<Rightarrow> error + addr" where
  "bundle_entry incoming_params pop_idx params_idx =
     (case py_index incoming_params pop_idx of
        Inl e \<Rightarrow> Inl e
      | Inr entry \<Rightarrow> py_index entry params_idx)"

text \<open>
  The inner loop of \<open>insert_params\<close>:
  \<^verbatim>\<open>state_dict[name] = incoming_params[pop_idx][params_idx]; params_idx += 1\<close>.
\<close>

fun assign_params ::
  "param_bundle \<Rightarrow> nat \<Rightarrow> (string \<times> addr) list \<Rightarrow> (string \<rightharpoonup> addr) \<times> nat
     \<Rightarrow> error + ((string \<rightharpoonup> addr) \<times> nat)" where
  "assign_params incoming_params pop_idx [] (sd, params_idx) = Inr (sd, params_idx)"
| "assign_params incoming_params pop_idx ((name, parameter) # rest) (sd, params_idx) =
     (case bundle_entry incoming_params pop_idx params_idx of
        Inl e \<Rightarrow> Inl e
      | Inr t \<Rightarrow> assign_params incoming_params pop_idx rest (sd(name \<mapsto> t), params_idx + 1))"

text \<open>
  \<open>load_state_dict\<close> (strict) of torch, for one module. For each parameter and buffer of
  the module it takes the entry of the same name; a one-dimensional entry offered to a
  zero-dimensional tensor is replaced by its first element (torch's rule for old
  checkpoints, which raises IndexError on an empty entry); an entry of another shape, or
  a missing one, is recorded and makes the call raise RuntimeError once every name has
  been visited; otherwise the entry is copied into the tensor in place.
\<close>

definition load_input :: "'a tensor \<Rightarrow> 'a tensor \<Rightarrow> error + 'a tensor" where
  "load_input param input_param =
     (if shape param = [] \<and> length (shape input_param) = 1
      then (if hd (shape input_param) = 0 then Inl IndexError
            else Inr \<lparr>shape = [], data = take 1 (data input_param)\<rparr>)
      else Inr input_param)"

fun load_from_state_dict ::
  "(string \<rightharpoonup> addr) \<Rightarrow> (string \<times> addr) list \<Rightarrow> 'a store \<times> bool \<Rightarrow> error + ('a store \<times> bool)" where
  "load_from_state_dict sd [] (st, ok) = Inr (st, ok)"
| "load_from_state_dict sd ((name, param) # rest) (st, ok) =
     (case sd name of
        None \<Rightarrow> load_from_state_dict sd rest (st, False)
      | Some src \<Rightarrow>
          (case load_input (st param) (st src) of
             Inl e \<Rightarrow> Inl e
           | Inr input_param \<Rightarrow>
               if shape input_param \<noteq> shape (st param)
               then load_from_state_dict sd rest (st, False)
               else load_from_state_dict sd rest
                      (st(param := (st param)\<lparr>data := data input_param\<rparr>), ok)))"

definition load_state_dict :: "(string \<rightharpoonup> addr) \<Rightarrow> layer \<Rightarrow> 'a store \<Rightarrow> error + 'a store" where
  "load_state_dict sd l st =
     (case load_from_state_dict sd (named_parameters l @ named_buffers l) (st, True) of
        Inl e \<Rightarrow> Inl e
      | Inr (st', ok) \<Rightarrow> if ok then Inr st' else Inl RuntimeError)"

text \<open>The loop over the layers of one individual; \<open>params_idx\<close> runs on across layers.\<close>

fun insert_layers ::
  "param_bundle \<Rightarrow> nat \<Rightarrow> head_block \<Rightarrow> nat \<Rightarrow> 'a store \<Rightarrow> error + 'a store" where
  "insert_layers incoming_params pop_idx [] params_idx st = Inr st"
| "insert_layers incoming_params pop_idx (l # ls) params_idx st =
     (case assign_params incoming_params pop_idx (named_parameters l) (state_dict l, params_idx) of
        Inl e \<Rightarrow> Inl e
      | Inr (sd, params_idx') \<Rightarrow>
          (case load_state_dict sd l st of
             Inl e \<Rightarrow> Inl e
           | Inr st' \<Rightarrow> insert_layers incoming_params pop_idx ls params_idx' st'))"

text \<open>
  The loop \<^verbatim>\<open>for pop_idx in range(len(self.policy_nets))\<close>: the individuals in order,
  \<open>pop_idx\<close> counting from the index of the first one left.
\<close>

fun insert_individuals ::
  "param_bundle \<Rightarrow> head_block list \<Rightarrow> nat \<Rightarrow> 'a store \<Rightarrow> error + 'a store" where
  "insert_individuals incoming_params [] pop_idx st = Inr st"
| "insert_individuals incoming_params (individual # rest) pop_idx st =
     (case insert_layers incoming_params pop_idx individual 0 st of
        Inl e \<Rightarrow> Inl e
      | Inr st' \<Rightarrow> insert_individuals incoming_params rest (pop_idx + 1) st')"

definition insert_params :: "head_block list \<Rightarrow> param_bundle \<Rightarrow> 'a store \<Rightarrow> error + 'a store" where
  "insert_params policy_nets incoming_params st =
     insert_individuals incoming_params policy_nets 0 st"

text \<open>
  What \<open>insert_params\<close> reads of a bundle: for each individual of the population the
  first entries of that individual's list, as many as the head has parameters.
\<close>

definition consumed :: "head_block list \<Rightarrow> param_bundle \<Rightarrow> param_bundle" where
  "consumed policy_nets incoming_params =
     map (\<lambda>(individual, entry). take (length (extract_individual individual)) entry)
       (zip policy_nets incoming_params)"

text \<open>The shapes \<open>load_state_dict\<close> accepts for a tensor of shape \<open>ps\<close>.\<close>

definition shape_accepted :: "nat list \<Rightarrow> nat list \<Rightarrow> bool" where
  "shape_accepted ps ins =
     (if ps = [] \<and> length ins = 1 then hd ins \<noteq> 0 else ins = ps)"

text \<open>What makes \<open>load_state_dict\<close> succeed on the entries \<open>es\<close> of a module.\<close>

definition entries_accepted ::
  "(addr \<Rightarrow> nat list) \<Rightarrow> (string \<rightharpoonup> addr) \<Rightarrow> (string \<times> addr) list \<Rightarrow> bool" where
  "entries_accepted sh sd es =
     (\<forall>(name, p) \<in> set es.
        case sd name of None \<Rightarrow> False | Some src \<Rightarrow> shape_accepted (sh p) (sh src))"

text \<open>
  A bundle fits a population when it has an entry of an accepted shape at every position
  that \<open>insert_params\<close> reads: position \<open>params_idx + m\<close> of individual \<open>pop_idx\<close>
  for the \<open>m\<close>-th of the parameters \<open>ps\<close>.
\<close>

definition positions_fit ::
  "(addr \<Rightarrow> nat list) \<Rightarrow> param_bundle \<Rightarrow> nat \<Rightarrow> nat \<Rightarrow> addr list \<Rightarrow> bool" where
  "positions_fit sh incoming_params pop_idx params_idx ps =
     (\<forall>m < length ps.
        case bundle_entry incoming_params pop_idx (params_idx + m) of
          Inl e \<Rightarrow> False
        | Inr t \<Rightarrow> shape_accepted (sh (ps ! m)) (sh t))"

definition bundle_fits :: "'a store \<Rightarrow> head_block list \<Rightarrow> param_bundle \<Rightarrow> bool" where
  "bundle_fits st policy_nets incoming_params =
     (\<forall>i < length policy_nets.
        positions_fit (\<lambda>a. shape (st a)) incoming_params i 0
          (extract_individual (policy_nets ! i)))"

subsection \<open>extract_grads\<close>

text \<open>
  \<open>parameter.grad\<close> is \<open>None\<close> until a backward pass reaches the parameter, and
  \<open>None.detach()\<close> raises AttributeError. The gradients are the map from a parameter to
  its gradient tensor.
\<close>

type_synonym grads = "addr \<Rightarrow> addr option"

fun grads_layer :: "grads \<Rightarrow> (string \<times> addr) list \<Rightarrow> addr list \<Rightarrow> error + addr list" where
  "grads_layer g [] layer_grads = Inr layer_grads"
| "grads_layer g ((name, parameter) # rest) layer_grads =
     (case g parameter of
        None \<Rightarrow> Inl AttributeError
      | Some gr \<Rightarrow> grads_layer g rest (layer_grads @ [detach gr]))"

fun grads_individual :: "grads \<Rightarrow> head_block \<Rightarrow> addr list \<Rightarrow> error + addr list" where
  "grads_individual g [] layer_grads = Inr layer_grads"
| "grads_individual g (l # ls) layer_grads =
     (case grads_layer g (named_parameters l) layer_grads of
        Inl e \<Rightarrow> Inl e
      | Inr layer_grads' \<Rightarrow> grads_individual g ls layer_grads')"

fun grads_population ::
  "grads \<Rightarrow> head_block list \<Rightarrow> param_bundle \<Rightarrow> error + param_bundle" where
  "grads_population g [] extracted_grads = Inr extracted_grads"
| "grads_population g (individual # rest) extracted_grads =
     (case grads_individual g individual [] of
        Inl e \<Rightarrow> Inl e
      | Inr layer_grads \<Rightarrow> grads_population g rest (extracted_grads @ [layer_grads]))"

definition extract_grads :: "grads \<Rightarrow> head_block list \<Rightarrow> error + param_bundle" where
  "extract_grads g policy_nets = grads_population g policy_nets []"

text \<open>torch only accepts a gradient of the shape of its parameter.\<close>

definition grads_wf :: "'a store \<Rightarrow> grads \<Rightarrow> bool" where
  "grads_wf st g = (\<forall>p gr. g p = Some gr \<longrightarrow> shape (st gr) = shape (st p))"

definition has_grad :: "grads \<Rightarrow> head_block list \<Rightarrow> bool" where
  "has_grad g policy_nets =
     (\<forall>individual \<in> set policy_nets. \<forall>p \<in> set (extract_individual individual). g p \<noteq> None)"

subsection \<open>_init_model_layers\<close>

text \<open>
  A layer of the configuration. \<open>_add_layer\<close> is \<open>getattr(nn, layer_type)(*layer_params,
  **layer_kwargs)\<close>: the torch constructor is a parameter \<open>nn\<close> of the model, which
  allocates the tensors of the new layer in the world \<open>'w\<close> or raises.
\<close>

record ('p, 'k) layer_spec =
  layer_type :: string
  layer_params :: 'p
  layer_kwargs :: 'k

type_synonym ('p, 'k, 'w) torch_nn = "string \<Rightarrow> 'p \<Rightarrow> 'k \<Rightarrow> 'w \<Rightarrow> error + (layer \<times> 'w)"

definition add_layer ::
  "('p, 'k, 'w) torch_nn \<Rightarrow> string \<Rightarrow> 'p \<Rightarrow> 'k \<Rightarrow> 'w \<Rightarrow> error + (layer \<times> 'w)" where
  "add_layer nn ltype lparams lkwargs w = nn ltype lparams lkwargs w"

fun add_layers_loop ::
  "('p, 'k, 'w) torch_nn \<Rightarrow> ('p, 'k) layer_spec list \<Rightarrow> head_block \<Rightarrow> 'w
     \<Rightarrow> error + (head_block \<times> 'w)" where
  "add_layers_loop nn [] output_ml w = Inr (output_ml, w)"
| "add_layers_loop nn (l # rest) output_ml w =
     (case add_layer nn (layer_type l) (layer_params l) (layer_kwargs l) w of
        Inl e \<Rightarrow> Inl e
      | Inr (m, w') \<Rightarrow> add_layers_loop nn rest (output_ml @ [m]) w')"

definition add_layers ::
  "('p, 'k, 'w) torch_nn \<Rightarrow> ('p, 'k) layer_spec list \<Rightarrow> 'w \<Rightarrow> error + (head_block \<times> 'w)" where
  "add_layers nn layer_config w = add_layers_loop nn layer_config [] w"

record ('p, 'k) net_config =
  shared :: "('p, 'k) layer_spec list"
  policy :: "('p, 'k) layer_spec list"
  value_cfg :: "('p, 'k) layer_spec list"

record evoac_model =
  shared_net :: head_block
  policy_nets :: "head_block list"
  value_net :: head_block

text \<open>The list comprehension \<^verbatim>\<open>[self._add_layers(policy) for _ in range(pop_size)]\<close>.\<close>

fun policy_heads ::
  "('p, 'k, 'w) torch_nn \<Rightarrow> ('p, 'k) layer_spec list \<Rightarrow> nat \<Rightarrow> head_block list \<Rightarrow> 'w
     \<Rightarrow> error + (head_block list \<times> 'w)" where
  "policy_heads nn layer_config 0 heads w = Inr (heads, w)"
| "policy_heads nn layer_config (Suc n) heads w =
     (case add_layers nn layer_config w of
        Inl e \<Rightarrow> Inl e
      | Inr (h, w') \<Rightarrow> policy_heads nn layer_config n (heads @ [h]) w')"

definition init_model_layers ::
  "('p, 'k, 'w) torch_nn \<Rightarrow> ('p, 'k) net_config \<Rightarrow> nat \<Rightarrow> 'w \<Rightarrow> error + (evoac_model \<times> 'w)" where
  "init_model_layers nn net_cfg pop_size w =
     (case add_layers nn (shared net_cfg) w of
        Inl e \<Rightarrow> Inl e
      | Inr (sn, w1) \<Rightarrow>
          (case policy_heads nn (policy net_cfg) pop_size [] w1 of
             Inl e \<Rightarrow> Inl e
           | Inr (pn, w2) \<Rightarrow>
               (case add_layers nn (value_cfg net_cfg) w2 of
                  Inl e \<Rightarrow> Inl e
                | Inr (vn, w3) \<Rightarrow>
                    Inr (\<lparr>shared_net = sn, policy_nets = pn, value_net = vn\<rparr>, w3))))"

text \<open>
  The layout the docstrings name, \<open>[individual][layer][parameter]\<close>: one list per layer.
\<close>

definition nested_layout :: "head_block list \<Rightarrow> addr list list list" where
  "nested_layout nets = map (map (\<lambda>l. map snd (named_parameters l))) nets"

text \<open>Sample data: a constructor that knows \<open>Linear\<close> (a weight and a bias) and \<open>ReLU\<close>.\<close>

definition sample_nn :: "(nat list, unit, nat) torch_nn" where
  "sample_nn ltype lparams lkwargs next_addr =
     (if ltype = ''Linear'' then
        Inr (\<lparr>named_parameters = [(''weight'', next_addr), (''bias'', next_addr + 1)],
              named_buffers = []\<rparr>, next_addr + 2)
      else if ltype = ''ReLU'' then
        Inr (\<lparr>named_parameters = [], named_buffers = []\<rparr>, next_addr)
      else Inl AttributeError)"

definition sample_head_config :: "(nat list, unit) layer_spec list" where
  "sample_head_config =
     [\<lparr>layer_type = ''Linear'', layer_params = [4, 8], layer_kwargs = ()\<rparr>,
      \<lparr>layer_type = ''ReLU'', layer_params = [], layer_kwargs = ()\<rparr>,
      \<lparr>layer_type = ''Linear'', layer_params = [8, 2], layer_kwargs = ()\<rparr>]"

definition sample_net_config :: "(nat list, unit) net_config" where
  "sample_net_config = \<lparr>shared = [], policy = sample_head_config, value_cfg = []\<rparr>"

definition linear_layer :: "addr \<Rightarrow> layer" where
  "linear_layer a = \<lparr>named_parameters = [(''weight'', a), (''bias'', a + 1)], named_buffers = []\<rparr>"

text \<open>Two individuals, each one \<open>Linear\<close> layer from 3 inputs to 2 outputs.\<close>

definition sample_nets :: "head_block list" where
  "sample_nets = [[linear_layer 0], [linear_layer 2]]"

definition sample_store :: "int store" where
  "sample_store a =
     (if a = 0 then \<lparr>shape = [2, 3], data = [1, 2, 3, 4, 5, 6]\<rparr>
      else if a = 1 then \<lparr>shape = [2], data = [7, 8]\<rparr>
      else if a = 2 then \<lparr>shape = [2, 3], data = [-1, -2, -3, -4, -5, -6]\<rparr>
      else if a = 3 then \<lparr>shape = [2], data = [-7, -8]\<rparr>
      else if a = 10 \<or> a = 12 \<or> a = 14 then \<lparr>shape = [2, 3], data = [0, 0, 0, 0, 0, 0]\<rparr>
      else if a = 11 \<or> a = 13 \<or> a = 15 then \<lparr>shape = [2], data = [9, 9]\<rparr>
      else \<lparr>shape = [], data = [0]\<rparr>)"

text \<open>Gradients for every parameter of \<open>sample_nets\<close>, and gradients that miss the last one.\<close>

definition sample_grads :: grads where
  "sample_grads p =
     (if p = 0 then Some 10 else if p = 1 then Some 11
      else if p = 2 then Some 12 else if p = 3 then Some 13 else None)"

definition sample_grads_missing :: grads where
  "sample_grads_missing p = (if p = 3 then None else sample_grads p)"

text \<open>
  Bundles for \<open>sample_nets\<close>: one with a surplus entry and a surplus individual, the part
  of it that is read, one with an individual too few, and one with two tensors swapped.
\<close>

definition surplus_bundle :: param_bundle where
  "surplus_bundle = [[10, 11, 1], [12, 13], [14, 15]]"

definition exact_bundle :: param_bundle where
  "exact_bundle = [[10, 11], [12, 13]]"

definition short_bundle :: param_bundle where
  "short_bundle = [[10, 11]]"

definition swapped_bundle :: param_bundle where
  "swapped_bundle = [[10, 11], [13, 12]]"

section \<open>The runner (runner.py)\<close>

subsection \<open>Configuration and construction\<close>

text \<open>
  The entries of the configuration that the runner reads: those of \<open>config['experiment']\<close>
  and of \<open>config['earl']\<close>. The key \<open>force_cpu\<close> may be absent; every other key the runner
  reads is present.
\<close>

record exp_config =
  exp_env :: string
  exp_num_runs :: nat
  exp_timesteps :: int
  exp_log_interval :: int
  exp_print_interval :: int
  exp_test_strat :: string
  exp_force_cpu :: "bool option"
  evo_pop_size :: nat
  evo_value_coeff :: real
  evo_entropy_coeff :: real

text \<open>\<open>_set_device\<close>; \<open>torch.cuda.is_available()\<close> is a parameter.\<close>

datatype device = Cpu | Cuda0

definition set_device :: "bool \<Rightarrow> exp_config \<Rightarrow> device" where
  "set_device cuda_is_available cfg =
     (if \<not> cuda_is_available \<or> exp_force_cpu cfg = Some True then Cpu else Cuda0)"

text \<open>
  \<open>EvoACRunner.__init__\<close>. The attribute \<open>stop_fit\<close> is assigned in the two branches of
  the \<open>if\<close>/\<open>elif\<close> and nowhere else, so it is an option. \<open>gym.make\<close> and the constructor
  \<open>EvoACLogger\<close> are parameters of the model: each gives an object or raises.
\<close>

record ('e, 'l) runner =
  config :: exp_config
  stop_fit :: "real option"
  device :: device
  env :: 'e
  test_env :: 'e
  logger :: 'l

definition init_runner ::
  "(string \<Rightarrow> error + 'e) \<Rightarrow> (exp_config \<Rightarrow> error + 'l) \<Rightarrow> bool \<Rightarrow> exp_config
     \<Rightarrow> error + ('e, 'l) runner" where
  "init_runner gym_make evoac_logger cuda_is_available cfg =
     (let stop = (if exp_env cfg = ''CartPole-v1'' then Some 475
                  else if exp_env cfg = ''LunarLander-v2'' then Some 200
                  else None);
          dev = set_device cuda_is_available cfg
      in case gym_make (exp_env cfg) of
           Inl e \<Rightarrow> Inl e
         | Inr e1 \<Rightarrow>
             (case gym_make (exp_env cfg) of
                Inl e \<Rightarrow> Inl e
              | Inr e2 \<Rightarrow>
                  (case evoac_logger cfg of
                     Inl e \<Rightarrow> Inl e
                   | Inr lg \<Rightarrow>
                       Inr \<lparr>config = cfg, stop_fit = stop, device = dev, env = e1,
                            test_env = e2, logger = lg\<rparr>)))"

subsection \<open>Floating-point operations\<close>

text \<open>
  Logits, probabilities, rewards and fitnesses are floating-point numbers. A finite
  floating-point number is modelled by the real number it denotes, and the operations on
  them, which round, are parameters of the model about which nothing is assumed:
  \<open>F.softmax\<close> of torch, \<open>softmax\<close> of scipy, the addition of \<^verbatim>\<open>+=\<close> and \<open>np.mean\<close>.
  Infinities and NaN are not values of the model.
\<close>

record numerics =
  f_softmax :: "real list \<Rightarrow> real list"
  sps_softmax :: "real list \<Rightarrow> real list"
  float_add :: "real \<Rightarrow> real \<Rightarrow> real"
  np_mean :: "real list \<Rightarrow> real"

subsection \<open>get_action\<close>

text \<open>
  \<open>Categorical(action_prob).sample()\<close>: the draw comes from the random source of the
  process, so \<open>get_action\<close> has a set of possible results, the actions to which
  \<open>action_prob\<close> gives a positive probability (\<open>Categorical\<close> divides by the sum of the
  probabilities, which keeps a zero at zero and a positive entry positive). The logits of
  the policy head of each individual at the current observation are a parameter \<open>forward\<close>.
  Of the four results of \<open>get_action\<close> only the action is modelled.
\<close>

definition categorical_sample :: "real list \<Rightarrow> nat set" where
  "categorical_sample probs = {a. a < length probs \<and> 0 < probs ! a}"

definition get_action :: "numerics \<Rightarrow> (nat \<Rightarrow> real list) \<Rightarrow> nat \<Rightarrow> nat set" where
  "get_action N forward pop_idx = categorical_sample (f_softmax N (forward pop_idx))"

subsection \<open>_get_test_action\<close>

text \<open>
  \<open>np.argmax\<close>: the first index of the largest element, ValueError on an empty sequence.
\<close>

fun argmax_scan :: "real list \<Rightarrow> nat \<Rightarrow> nat \<Rightarrow> real \<Rightarrow> nat" where
  "argmax_scan [] i best_i best = best_i"
| "argmax_scan (x # xs) i best_i best =
     (if best < x then argmax_scan xs (Suc i) i x else argmax_scan xs (Suc i) best_i best)"

definition np_argmax :: "real list \<Rightarrow> error + nat" where
  "np_argmax xs = (case xs of [] \<Rightarrow> Inl ValueError | x # rest \<Rightarrow> Inr (argmax_scan rest 1 0 x))"

text \<open>
  \<open>np.random.choice(pop_size, 1, p=probs)\<close>: an index of positive probability; ValueError
  when there is nothing to choose from or \<open>probs\<close> has another length.
\<close>

definition random_choice :: "nat \<Rightarrow> real list \<Rightarrow> (error + nat) set" where
  "random_choice n probs =
     (if n = 0 \<or> length probs \<noteq> n then {Inl ValueError} else Inr ` categorical_sample probs)"

text \<open>
  The vote:
  \<^verbatim>\<open>for mod_action, weight in zip(actions, fitnesses): action_votes[mod_action] += weight\<close>,
  one floating-point addition for each individual, in the order of the individuals.
\<close>

fun tally :: "numerics \<Rightarrow> real list \<Rightarrow> (nat \<times> real) list \<Rightarrow> error + real list" where
  "tally N action_votes [] = Inr action_votes"
| "tally N action_votes ((mod_action, weight) # rest) =
     (if mod_action < length action_votes
      then tally N (action_votes[mod_action := float_add N (action_votes ! mod_action) weight]) rest
      else Inl IndexError)"

definition weighted_vote :: "numerics \<Rightarrow> nat \<Rightarrow> nat list \<Rightarrow> real list \<Rightarrow> error + nat" where
  "weighted_vote N n actions fitnesses =
     (case tally N (replicate n 0) (zip actions fitnesses) of
        Inl e \<Rightarrow> Inl e
      | Inr action_votes \<Rightarrow> np_argmax action_votes)"

text \<open>
  The list comprehension of the weightedvote branch calls \<open>get_action\<close> once for every
  \<open>pop_idx\<close> in \<open>range(pop_size)\<close>, in this order; the possible lists of actions:
\<close>

fun collect_actions :: "numerics \<Rightarrow> (nat \<Rightarrow> real list) \<Rightarrow> nat list \<Rightarrow> nat list set" where
  "collect_actions N forward [] = {[]}"
| "collect_actions N forward (pop_idx # rest) =
     (\<Union>action \<in> get_action N forward pop_idx.
        (\<lambda>actions. action # actions) ` collect_actions N forward rest)"

definition vote_actions :: "numerics \<Rightarrow> (nat \<Rightarrow> real list) \<Rightarrow> nat \<Rightarrow> nat list set" where
  "vote_actions N forward pop = collect_actions N forward [0..<pop]"

text \<open>
  \<open>_get_test_action\<close>: the possible results. There is no \<open>else\<close> branch: for any other
  strategy \<open>action\<close> is never assigned and \<open>return action\<close> raises UnboundLocalError.
\<close>

definition get_test_action ::
  "numerics \<Rightarrow> string \<Rightarrow> nat \<Rightarrow> nat \<Rightarrow> (nat \<Rightarrow> real list) \<Rightarrow> real list \<Rightarrow> (error + nat) set" where
  "get_test_action N strat pop n forward fitnesses =
     (if strat = ''best'' then
        (case np_argmax fitnesses of
           Inl e \<Rightarrow> {Inl e}
         | Inr best_pop \<Rightarrow> Inr ` get_action N forward best_pop)
      else if strat = ''softmax'' then
        (\<Union>r \<in> random_choice pop (sps_softmax N fitnesses).
           case r of Inl e \<Rightarrow> {Inl e} | Inr pop_idx \<Rightarrow> Inr ` get_action N forward pop_idx)
      else if strat = ''weightedvote'' then
        (\<lambda>actions. weighted_vote N n actions fitnesses) ` vote_actions N forward pop
      else {Inl UnboundLocalError})"

text \<open>
  The vote total of an action: the fitnesses of the individuals that proposed it, added
  up as the loop does, with one floating-point addition for each of these individuals in
  the order of the individuals, from the initial 0.
\<close>

definition vote_total :: "numerics \<Rightarrow> nat list \<Rightarrow> real list \<Rightarrow> nat \<Rightarrow> real" where
  "vote_total N actions fitnesses k =
     foldl (\<lambda>total (mod_action, weight). if mod_action = k then float_add N total weight else total)
       0 (zip actions fitnesses)"

text \<open>Sample data: operations that do not round.\<close>

definition exact_softmax :: "real list \<Rightarrow> real list" where
  "exact_softmax xs = map (\<lambda>x. exp x / sum_list (map exp xs)) xs"

definition exact_numerics :: numerics where
  "exact_numerics =
     \<lparr>f_softmax = exact_softmax, sps_softmax = exact_softmax, float_add = (\<lambda>x y. x + y),
      np_mean = (\<lambda>xs. sum_list xs / real (length xs))\<rparr>"

text \<open>
  Sample data: operations whose addition rounds the sum \<open>5.5\<close> to 6, as a binary
  format with three significant bits does, and is exact on every other sum.
\<close>

definition rounding_numerics :: numerics where
  "rounding_numerics =
     exact_numerics\<lparr>float_add := (\<lambda>x y. if x + y = 11 / 2 then 6 else x + y)\<rparr>"

text \<open>
  Sample data: individuals that all have the logits \<open>[ln 3, 0]\<close> at the current
  observation, which the softmax that does not round makes the action probabilities
  \<open>3/4\<close> and \<open>1/4\<close>.
\<close>

definition sample_forward :: "nat \<Rightarrow> real list" where
  "sample_forward pop_idx = [ln 3, 0]"

subsection \<open>_test_algorithm\<close>

text \<open>
  The gym environment is a collaborator: \<open>reset\<close> and \<open>step\<close> act on an environment
  state \<open>'e\<close> (which holds the environment's own random state) and give observations
  \<open>'o\<close>. \<open>forward obs pop_idx\<close> are the policy logits of an individual at an observation.
\<close>

record ('e, 'o) gym_env =
  env_reset :: "'e \<Rightarrow> 'o \<times> 'e"
  env_step :: "'e \<Rightarrow> nat \<Rightarrow> ('o \<times> real \<times> bool) \<times> 'e"
  n_actions :: nat

text \<open>
  One evaluation rollout, the \<^verbatim>\<open>while True\<close> loop of \<open>_test_algorithm\<close>: from environment
  state \<open>e\<close>, observation \<open>obs\<close> and accumulated \<open>fitness\<close> it ends with a total fitness
  or an exception, in an environment state. A rollout that never ends has no result.
\<close>

inductive rollout ::
  "numerics \<Rightarrow> string \<Rightarrow> nat \<Rightarrow> ('e, 'o) gym_env \<Rightarrow> ('o \<Rightarrow> nat \<Rightarrow> real list) \<Rightarrow> real list
     \<Rightarrow> 'e \<Rightarrow> 'o \<Rightarrow> real \<Rightarrow> error + real \<Rightarrow> 'e \<Rightarrow> bool"
  for N :: numerics and strat :: string and pop :: nat and G :: "('e, 'o) gym_env"
    and forward :: "'o \<Rightarrow> nat \<Rightarrow> real list" and fitnesses :: "real list"
where
  rollout_raise:
    "Inl err \<in> get_test_action N strat pop (n_actions G) (forward obs) fitnesses
     \<Longrightarrow> rollout N strat pop G forward fitnesses e obs fitness (Inl err) e"
| rollout_done:
    "Inr action \<in> get_test_action N strat pop (n_actions G) (forward obs) fitnesses
     \<Longrightarrow> env_step G e action = ((obs', rewards, True), e')
     \<Longrightarrow> rollout N strat pop G forward fitnesses e obs fitness (Inr (float_add N fitness rewards)) e'"
| rollout_step:
    "Inr action \<in> get_test_action N strat pop (n_actions G) (forward obs) fitnesses
     \<Longrightarrow> env_step G e action = ((obs', rewards, False), e')
     \<Longrightarrow> rollout N strat pop G forward fitnesses e' obs' (float_add N fitness rewards) res e''
     \<Longrightarrow> rollout N strat pop G forward fitnesses e obs fitness res e''"

text \<open>The loop \<^verbatim>\<open>for _ in range(100)\<close>, with the number of rollouts left.\<close>

inductive test_rollouts ::
  "numerics \<Rightarrow> string \<Rightarrow> nat \<Rightarrow> ('e, 'o) gym_env \<Rightarrow> ('o \<Rightarrow> nat \<Rightarrow> real list) \<Rightarrow> real list
     \<Rightarrow> nat \<Rightarrow> 'e \<Rightarrow> real list \<Rightarrow> error + real list \<Rightarrow> 'e \<Rightarrow> bool"
  for N :: numerics and strat :: string and pop :: nat and G :: "('e, 'o) gym_env"
    and forward :: "'o \<Rightarrow> nat \<Rightarrow> real list" and fitnesses :: "real list"
where
  rollouts_end:
    "test_rollouts N strat pop G forward fitnesses 0 e acc (Inr acc) e"
| rollouts_next:
    "env_reset G e = (obs, e1)
     \<Longrightarrow> rollout N strat pop G forward fitnesses e1 obs 0 (Inr fitness) e2
     \<Longrightarrow> test_rollouts N strat pop G forward fitnesses k e2 (acc @ [fitness]) res e3
     \<Longrightarrow> test_rollouts N strat pop G forward fitnesses (Suc k) e acc res e3"
| rollouts_raise:
    "env_reset G e = (obs, e1)
     \<Longrightarrow> rollout N strat pop G forward fitnesses e1 obs 0 (Inl err) e2
     \<Longrightarrow> test_rollouts N strat pop G forward fitnesses (Suc k) e acc (Inl err) e2"


subsection \<open>train\<close>

text \<open>
  What the generation loop gets from its collaborators, by generation index: the length
  of each training episode (the environment), the gradients that \<open>loss.backward()\<close> leaves
  on the head parameters (the storage), the optimizer step, the new population (the
  evolutionary operator, which may create tensors) and the result of \<open>_test_algorithm\<close>.
\<close>

record 'a collaborators =
  episode_steps :: "nat \<Rightarrow> nat \<Rightarrow> nat"
  backward :: "nat \<Rightarrow> 'a store \<Rightarrow> grads"
  opt_step :: "nat \<Rightarrow> 'a store \<Rightarrow> 'a store"
  create_new_pop :: "nat \<Rightarrow> 'a store \<Rightarrow> param_bundle \<Rightarrow> 'a store \<times> param_bundle"
  test_algorithm :: "nat \<Rightarrow> 'a store \<Rightarrow> error + real"

record 'a run_state =
  timesteps :: int
  last_log :: int
  model :: "'a store"

text \<open>
  The calls of one run, in the order they happen. \<open>TestAlgorithm\<close> carries the model
  state the evaluation reads and the mean fitness it returns, \<open>InsertParams\<close> the model
  state it overwrites and the bundle it installs.
\<close>

datatype 'a event =
    ResetStorage nat
  | RunEpisode nat nat
  | UpdateEvoAC nat
  | TestAlgorithm nat "'a store" real
  | SaveFitnesses nat real
  | PrintData nat
  | InsertParams nat "'a store" param_bundle

fun gen_of :: "'a event \<Rightarrow> nat" where
  "gen_of (ResetStorage g) = g"
| "gen_of (RunEpisode g pop_idx) = g"
| "gen_of (UpdateEvoAC g) = g"
| "gen_of (TestAlgorithm g st f) = g"
| "gen_of (SaveFitnesses g f) = g"
| "gen_of (PrintData g) = g"
| "gen_of (InsertParams g st b) = g"

datatype stop = FitnessReached | BudgetExceeded

datatype 'a step = Continue "'a run_state" | Break stop | Raise error

text \<open>
  \<open>_run_episode\<close> for every individual: each step of an episode adds one to
  \<open>self.timesteps\<close>.
\<close>

definition run_episodes :: "'a collaborators \<Rightarrow> nat \<Rightarrow> nat \<Rightarrow> 'a run_state \<Rightarrow> 'a run_state" where
  "run_episodes W pop gen_idx s =
     foldl (\<lambda>s pop_idx. s\<lparr>timesteps := timesteps s + int (episode_steps W gen_idx pop_idx)\<rparr>)
       s [0..<pop]"

text \<open>
  \<open>_update_evo_ac\<close>: backward pass, \<open>extract_grads\<close>, optimizer step, new population.
\<close>

definition update_evo_ac ::
  "'a collaborators \<Rightarrow> head_block list \<Rightarrow> nat \<Rightarrow> 'a store \<Rightarrow> error + ('a store \<times> param_bundle)" where
  "update_evo_ac W nets gen_idx st =
     (case extract_grads (backward W gen_idx st) nets of
        Inl e \<Rightarrow> Inl e
      | Inr gradient_bundle \<Rightarrow>
          Inr (create_new_pop W gen_idx (opt_step W gen_idx st) gradient_bundle))"

text \<open>
  The end of the loop body, from \<^verbatim>\<open>self.model.insert_params(self.new_pop)\<close> on.
\<close>

definition install ::
  "exp_config \<Rightarrow> head_block list \<Rightarrow> nat \<Rightarrow> param_bundle \<Rightarrow> 'a event list \<Rightarrow> 'a run_state
     \<Rightarrow> 'a event list \<times> 'a step" where
  "install cfg nets gen_idx new_pop evs s =
     (case insert_params nets new_pop (model s) of
        Inl e \<Rightarrow> (evs, Raise e)
      | Inr st' \<Rightarrow>
          (evs @ [InsertParams gen_idx (model s) new_pop],
           if timesteps s > exp_timesteps cfg then Break BudgetExceeded
           else Continue (s\<lparr>model := st'\<rparr>)))"

text \<open>
  The body of \<^verbatim>\<open>for self.gen_idx in range(10000)\<close>. \<open>gen_idx % print_interval\<close> raises
  ZeroDivisionError for a print interval of 0, and reading \<open>self.stop_fit\<close> raises
  AttributeError when the constructor did not assign it.
\<close>

definition generation ::
  "'a collaborators \<Rightarrow> exp_config \<Rightarrow> real option \<Rightarrow> head_block list \<Rightarrow> nat \<Rightarrow> 'a run_state
     \<Rightarrow> 'a event list \<times> 'a step" where
  "generation W cfg stop_fit_attr nets gen_idx s =
     (let s1 = run_episodes W (evo_pop_size cfg) gen_idx s;
          evs1 = ResetStorage gen_idx # map (RunEpisode gen_idx) [0..<evo_pop_size cfg]
      in case update_evo_ac W nets gen_idx (model s1) of
           Inl e \<Rightarrow> (evs1, Raise e)
         | Inr (st2, new_pop) \<Rightarrow>
             let s2 = s1\<lparr>model := st2\<rparr>; evs2 = evs1 @ [UpdateEvoAC gen_idx] in
             if timesteps s2 - last_log s2 \<ge> exp_log_interval cfg
                \<or> timesteps s2 > exp_timesteps cfg
             then
               (case test_algorithm W gen_idx (model s2) of
                  Inl e \<Rightarrow> (evs2, Raise e)
                | Inr test_fit \<Rightarrow>
                    let evs3 = evs2 @ [TestAlgorithm gen_idx (model s2) test_fit,
                                       SaveFitnesses gen_idx test_fit] in
                    if exp_print_interval cfg = 0 then (evs3, Raise ZeroDivisionError)
                    else
                      let evs4 = evs3 @ (if int gen_idx mod exp_print_interval cfg = 0
                                         then [PrintData gen_idx] else []);
                          s3 = s2\<lparr>last_log := timesteps s2\<rparr>
                      in (case stop_fit_attr of
                            None \<Rightarrow> (evs4, Raise AttributeError)
                          | Some threshold \<Rightarrow>
                              if test_fit \<ge> threshold then (evs4, Break FitnessReached)
                              else install cfg nets gen_idx new_pop evs4 s3))
             else install cfg nets gen_idx new_pop evs2 s2)"

text \<open>How a run ends, with the generation it ends in.\<close>

datatype outcome =
    StoppedByFitness nat
  | StoppedByBudget nat
  | RanAllGenerations
  | Crashed nat error

text \<open>The generation loop, with the number of generations left of the 10000.\<close>

fun gen_loop ::
  "'a collaborators \<Rightarrow> exp_config \<Rightarrow> real option \<Rightarrow> head_block list \<Rightarrow> nat \<Rightarrow> nat
     \<Rightarrow> 'a run_state \<Rightarrow> outcome \<times> 'a event list" where
  "gen_loop W cfg stop_fit_attr nets 0 gen_idx s = (RanAllGenerations, [])"
| "gen_loop W cfg stop_fit_attr nets (Suc left) gen_idx s =
     (case generation W cfg stop_fit_attr nets gen_idx s of
        (evs, Continue s') \<Rightarrow>
          (case gen_loop W cfg stop_fit_attr nets left (Suc gen_idx) s' of
             (out, tr) \<Rightarrow> (out, evs @ tr))
      | (evs, Break FitnessReached) \<Rightarrow> (StoppedByFitness gen_idx, evs)
      | (evs, Break BudgetExceeded) \<Rightarrow> (StoppedByBudget gen_idx, evs)
      | (evs, Raise e) \<Rightarrow> (Crashed gen_idx e, evs))"

subsection \<open>_reset_experiment and one run\<close>

text \<open>
  What \<open>_reset_experiment\<close> uses from outside the two files, each of which gives a result
  or raises: the observation space and the attribute \<open>_max_episode_steps\<close> of the
  environment, the constructors \<open>EvoACStorage\<close> and \<open>EA\<close>, \<open>evo.set_params\<close>, and for
  \<open>EvoACModel\<close> the constructor \<open>nn\<close> of the layers, the state of torch before the run,
  \<open>optim.Adam\<close> (which refuses an empty list of parameters), the move \<open>.to(device)\<close> and
  the tensors that a state of torch holds.
\<close>

record ('e, 'p, 'k, 'w, 'a) experiment_setup =
  observation_size :: "'e \<Rightarrow> error + nat"
  max_episode_steps :: "'e \<Rightarrow> error + nat"
  evoac_storage :: "nat \<Rightarrow> exp_config \<Rightarrow> device \<Rightarrow> error + unit"
  nn_layers :: "('p, 'k, 'w) torch_nn"
  torch_state :: 'w
  optim_adam :: "evoac_model \<Rightarrow> 'w \<Rightarrow> error + 'w"
  module_to :: "device \<Rightarrow> 'w \<Rightarrow> error + 'w"
  tensors :: "'w \<Rightarrow> 'a store"
  evoac_ea :: "exp_config \<Rightarrow> error + unit"
  set_params :: "param_bundle \<Rightarrow> error + unit"

text \<open>
  \<open>EvoACModel(config, device).to(device)\<close>: \<open>_init_model_layers\<close>, then the optimizer over
  the parameters of the model, then the move to the device.
\<close>

definition init_evoac_model ::
  "('e, 'p, 'k, 'w, 'a) experiment_setup \<Rightarrow> ('p, 'k) net_config \<Rightarrow> exp_config \<Rightarrow> device
     \<Rightarrow> error + (evoac_model \<times> 'w)" where
  "init_evoac_model S net_cfg cfg dev =
     (case init_model_layers (nn_layers S) net_cfg (evo_pop_size cfg) (torch_state S) of
        Inl e \<Rightarrow> Inl e
      | Inr (m, w) \<Rightarrow>
          (case optim_adam S m w of
             Inl e \<Rightarrow> Inl e
           | Inr w1 \<Rightarrow>
               (case module_to S dev w1 of
                  Inl e \<Rightarrow> Inl e
                | Inr w2 \<Rightarrow> Inr (m, w2))))"

text \<open>
  \<open>_reset_experiment\<close>, with the section \<open>config['neural_net']\<close> as \<open>net_cfg\<close>: the new
  model and the tensors it starts with.
\<close>

definition reset_experiment ::
  "('e, 'p, 'k, 'w, 'a) experiment_setup \<Rightarrow> ('p, 'k) net_config \<Rightarrow> ('e, 'l) runner
     \<Rightarrow> error + (evoac_model \<times> 'a store)" where
  "reset_experiment S net_cfg r =
     (case observation_size S (env r) of
        Inl e \<Rightarrow> Inl e
      | Inr obs_size \<Rightarrow>
          (case max_episode_steps S (env r) of
             Inl e \<Rightarrow> Inl e
           | Inr max_ep_steps \<Rightarrow>
               (case evoac_storage S (evo_pop_size (config r)) (config r) (device r) of
                  Inl e \<Rightarrow> Inl e
                | Inr storage \<Rightarrow>
                    (case init_evoac_model S net_cfg (config r) (device r) of
                       Inl e \<Rightarrow> Inl e
                     | Inr (m, w) \<Rightarrow>
                         (case evoac_ea S (config r) of
                            Inl e \<Rightarrow> Inl e
                          | Inr evo \<Rightarrow>
                              (case set_params S (extract_params (policy_nets m)) of
                                 Inl e \<Rightarrow> Inl e
                               | Inr u \<Rightarrow> Inr (m, tensors S w)))))))"

text \<open>
  One run of \<open>train\<close>, the body of \<^verbatim>\<open>for run_idx in range(num_runs)\<close> up to the end of the
  generation loop: \<open>_reset_experiment\<close>, the three counters, and the generation loop with
  the collaborators \<open>W\<close> of this run. An exception of \<open>_reset_experiment\<close> ends the
  program before the first generation.
\<close>

definition run_experiment ::
  "('e, 'p, 'k, 'w, 'a) experiment_setup \<Rightarrow> 'a collaborators \<Rightarrow> ('p, 'k) net_config
     \<Rightarrow> ('e, 'l) runner \<Rightarrow> error + (outcome \<times> 'a event list)" where
  "run_experiment S W net_cfg r =
     (case reset_experiment S net_cfg r of
        Inl e \<Rightarrow> Inl e
      | Inr (m, st0) \<Rightarrow>
          Inr (gen_loop W (config r) (stop_fit r) (policy_nets m) 10000 0
                 \<lparr>timesteps = 0, last_log = - 9999999, model = st0\<rparr>))"


text \<open>
  Sample data: two individuals, episodes of ten steps, an evaluation in every generation
  with mean fitness 100 in generation 0 and 500 from then on, and an evolutionary
  operator that returns the tensors at addresses 10 to 13.
\<close>

definition sample_config :: exp_config where
  "sample_config =
     \<lparr>exp_env = ''CartPole-v1'', exp_num_runs = 1, exp_timesteps = 1000, exp_log_interval = 5,
      exp_print_interval = 1, exp_test_strat = ''weightedvote'', exp_force_cpu = None,
      evo_pop_size = 2, evo_value_coeff = 1 / 2, evo_entropy_coeff = 1 / 100\<rparr>"

definition sample_world :: "int collaborators" where
  "sample_world =
     \<lparr>episode_steps = (\<lambda>gen_idx pop_idx. 10),
      backward = (\<lambda>gen_idx st. sample_grads),
      opt_step = (\<lambda>gen_idx st. st),
      create_new_pop = (\<lambda>gen_idx st gradient_bundle. (st, exact_bundle)),
      test_algorithm = (\<lambda>gen_idx st. Inr (if gen_idx = 0 then 100 else 500))\<rparr>"

definition sample_state :: "int run_state" where
  "sample_state = \<lparr>timesteps = 0, last_log = - 9999999, model = sample_store\<rparr>"

subsection \<open>Order of the calls in a trace\<close>

text \<open>
  \<open>never_after P Q tr\<close>: once an event with \<open>P\<close> has happened in \<open>tr\<close>, no event with
  \<open>Q\<close> happens later.
\<close>

fun never_after :: "('x \<Rightarrow> bool) \<Rightarrow> ('x \<Rightarrow> bool) \<Rightarrow> 'x list \<Rightarrow> bool" where
  "never_after P Q [] = True"
| "never_after P Q (e # tr) = ((P e \<longrightarrow> list_all (\<lambda>x. \<not> Q x) tr) \<and> never_after P Q tr)"

fun is_insert_in :: "nat \<Rightarrow> 'a event \<Rightarrow> bool" where
  "is_insert_in g (InsertParams g' st b) = (g' = g)"
| "is_insert_in g e = False"

text \<open>Evaluation and logging of generation \<open>g\<close>.\<close>

fun is_eval_in :: "nat \<Rightarrow> 'a event \<Rightarrow> bool" where
  "is_eval_in g (TestAlgorithm g' st f) = (g' = g)"
| "is_eval_in g (SaveFitnesses g' f) = (g' = g)"
| "is_eval_in g (PrintData g') = (g' = g)"
| "is_eval_in g e = False"

fun is_test :: "'a event \<Rightarrow> bool" where
  "is_test (TestAlgorithm g st f) = True"
| "is_test e = False"

text \<open>An evaluation whose mean fitness reaches the threshold.\<close>

fun test_reaches :: "real \<Rightarrow> 'a event \<Rightarrow> bool" where
  "test_reaches threshold (TestAlgorithm g st f) = (threshold \<le> f)"
| "test_reaches threshold e = False"

fun is_logging :: "'a event \<Rightarrow> bool" where
  "is_logging (SaveFitnesses g f) = True"
| "is_logging (PrintData g) = True"
| "is_logging e = False"

text \<open>The calls of generation 0 with the sample data and a threshold above 100.\<close>

definition sample_events :: "int event list" where
  "sample_events =
     [ResetStorage 0, RunEpisode 0 0, RunEpisode 0 1, UpdateEvoAC 0,
      TestAlgorithm 0 sample_store 100, SaveFitnesses 0 100, PrintData 0,
      InsertParams 0 sample_store exact_bundle]"

text \<open>
  Sample data: a \<open>gym.make\<close> that knows three environments and raises for any other
  identifier, a logger constructor that accepts every configuration, a configuration with
  a test strategy that is none of the three, one with an environment without threshold,
  one with such an environment and a print interval of 0, and one with an environment
  that \<open>gym.make\<close> does not know.
\<close>

definition sample_gym_make :: "string \<Rightarrow> error + nat" where
  "sample_gym_make name =
     (if name = ''CartPole-v1'' then Inr 0
      else if name = ''CartPole-v0'' then Inr 1
      else if name = ''LunarLander-v2'' then Inr 2
      else Inl CollaboratorError)"

definition sample_logger :: "exp_config \<Rightarrow> error + unit" where
  "sample_logger cfg = Inr ()"

definition greedy_config :: exp_config where
  "greedy_config = sample_config\<lparr>exp_test_strat := ''greedy''\<rparr>"

definition cartpole_v0_config :: exp_config where
  "cartpole_v0_config = sample_config\<lparr>exp_env := ''CartPole-v0''\<rparr>"

definition zero_print_config :: exp_config where
  "zero_print_config = cartpole_v0_config\<lparr>exp_print_interval := 0\<rparr>"

definition unknown_env_config :: exp_config where
  "unknown_env_config = sample_config\<lparr>exp_env := ''NoSuchEnv-v0''\<rparr>"

text \<open>
  Sample data: a network configuration whose policy head is one \<open>Linear\<close> layer, a set-up
  in which every collaborator succeeds and the tensors are those of \<open>sample_store\<close>, and
  the runner on the CPU with the sample environment \<open>e\<close> and the sample logger.
\<close>

definition linear_net_config :: "(nat list, unit) net_config" where
  "linear_net_config =
     \<lparr>shared = [],
      policy = [\<lparr>layer_type = ''Linear'', layer_params = [3, 2], layer_kwargs = ()\<rparr>],
      value_cfg = []\<rparr>"

definition sample_setup :: "(nat, nat list, unit, nat, int) experiment_setup" where
  "sample_setup =
     \<lparr>observation_size = (\<lambda>e. Inr (if e = 2 then 8 else 4)),
      max_episode_steps = (\<lambda>e. Inr (if e = 0 then 500 else if e = 1 then 200 else 1000)),
      evoac_storage = (\<lambda>num_pop cfg dev. Inr ()),
      nn_layers = sample_nn,
      torch_state = 0,
      optim_adam = (\<lambda>m w. Inr w),
      module_to = (\<lambda>dev w. Inr w),
      tensors = (\<lambda>w. sample_store),
      evoac_ea = (\<lambda>cfg. Inr ()),
      set_params = (\<lambda>b. Inr ())\<rparr>"

definition sample_runner :: "exp_config \<Rightarrow> real option \<Rightarrow> nat \<Rightarrow> (nat, unit) runner" where
  "sample_runner cfg stop e =
     \<lparr>config = cfg, stop_fit = stop, device = Cpu, env = e, test_env = e, logger = ()\<rparr>"




definition greedy_world :: "int collaborators" where
  "greedy_world = sample_world\<lparr>test_algorithm := (\<lambda>gen_idx st. Inl UnboundLocalError)\<rparr>"

section \<open>Properties\<close>

subsection \<open>Helper lemmas for the population network\<close>

lemma extract_layer_eq: "extract_layer acc l = acc @ map snd (named_parameters l)"
proof -
  have "foldl (\<lambda>acc (name, parameter). acc @ [detach parameter]) acc ps = acc @ map snd ps"
    for ps :: "(string \<times> addr) list"
    by (induction ps arbitrary: acc) (auto simp: detach_def)
  then show ?thesis by (simp add: extract_layer_def)
qed

lemma foldl_extract_layer: "foldl extract_layer acc ls = acc @ concat (map (\<lambda>l. map snd (named_parameters l)) ls)"
  by (induction ls arbitrary: acc) (simp_all add: extract_layer_eq)

lemma extract_individual_eq:
  "extract_individual individual = concat (map (\<lambda>l. map snd (named_parameters l)) individual)"
  by (simp add: extract_individual_def foldl_extract_layer)

lemma extract_params_eq: "extract_params nets = map extract_individual nets"
proof -
  have "foldl (\<lambda>ex individual. ex @ [extract_individual individual]) acc nets
          = acc @ map extract_individual nets" for acc and nets :: "head_block list"
    by (induction nets arbitrary: acc) simp_all
  then show ?thesis by (simp add: extract_params_def)
qed

lemma state_dict_own:
  assumes "layer_wf l" "(n, a) \<in> set (named_parameters l @ named_buffers l)"
  shows "state_dict l n = Some a"
  using assms unfolding layer_wf_def state_dict_def by (metis map_of_is_SomeI)

lemma assign_own:
  assumes "pop_idx < length b" "b ! pop_idx = pre @ map snd ps @ post"
    and "\<forall>(n, a) \<in> set ps. sd n = Some a"
  shows "assign_params b pop_idx ps (sd, length pre) = Inr (sd, length pre + length ps)"
  using assms
proof (induction ps arbitrary: pre)
  case Nil
  then show ?case by simp
next
  case (Cons p ps)
  obtain n a where p: "p = (n, a)" by (cases p)
  have sd: "sd(n \<mapsto> a) = sd" using Cons.prems(3) p by (auto simp: fun_upd_idem)
  have ix: "bundle_entry b pop_idx (length pre) = Inr a"
    using Cons.prems(1,2) p by (simp add: bundle_entry_def py_index_def nth_append)
  have "b ! pop_idx = (pre @ [a]) @ map snd ps @ post" using Cons.prems(2) p by simp
  from Cons.IH[OF Cons.prems(1) this] Cons.prems(3)
  have "assign_params b pop_idx ps (sd, Suc (length pre)) = Inr (sd, Suc (length pre) + length ps)"
    by simp
  then show ?case using ix sd p by simp
qed

lemma load_input_self: "load_input t t = Inr t"
  by (auto simp: load_input_def)

lemma load_own:
  assumes "\<forall>(n, a) \<in> set entries. sd n = Some a"
  shows "load_from_state_dict sd entries (st, ok) = Inr (st, ok)"
  using assms by (induction entries) (auto simp: load_input_self)

lemma load_state_dict_own:
  assumes "layer_wf l"
  shows "load_state_dict (state_dict l) l st = Inr st"
proof -
  have "\<forall>(n, a) \<in> set (named_parameters l @ named_buffers l). state_dict l n = Some a"
    using state_dict_own[OF assms] by blast
  then have "load_from_state_dict (state_dict l) (named_parameters l @ named_buffers l) (st, True) = Inr (st, True)"
    by (rule load_own)
  then show ?thesis by (simp add: load_state_dict_def)
qed

lemma insert_layers_own:
  assumes "pop_idx < length b" "b ! pop_idx = pre @ extract_individual ls @ post"
    and "\<forall>l \<in> set ls. layer_wf l"
  shows "insert_layers b pop_idx ls (length pre) st = Inr st"
  using assms
proof (induction ls arbitrary: pre)
  case Nil
  then show ?case by simp
next
  case (Cons l ls)
  let ?ps = "named_parameters l"
  have wf: "layer_wf l" using Cons.prems(3) by simp
  have b1: "b ! pop_idx = pre @ map snd ?ps @ (extract_individual ls @ post)"
    using Cons.prems(2) by (simp add: extract_individual_eq)
  have own: "\<forall>(n, a) \<in> set ?ps. state_dict l n = Some a"
    using state_dict_own[OF wf] by auto
  have a: "assign_params b pop_idx ?ps (state_dict l, length pre)
             = Inr (state_dict l, length pre + length ?ps)"
    by (rule assign_own[OF Cons.prems(1) b1 own])
  have b2: "b ! pop_idx = (pre @ map snd ?ps) @ extract_individual ls @ post"
    using b1 by simp
  have "insert_layers b pop_idx ls (length (pre @ map snd ?ps)) st = Inr st"
    using Cons.IH[OF Cons.prems(1) b2] Cons.prems(3) by simp
  then show ?case using a load_state_dict_own[OF wf, of st] by simp
qed

lemma insert_individuals_own:
  assumes "\<forall>i < length rest. k + i < length b \<and> b ! (k + i) = extract_individual (rest ! i)"
    and "\<forall>individual \<in> set rest. \<forall>l \<in> set individual. layer_wf l"
  shows "insert_individuals b rest k st = Inr st"
  using assms
proof (induction rest arbitrary: k)
  case Nil
  then show ?case by simp
next
  case (Cons ind rest)
  from Cons.prems(1) have h0: "k < length b" "b ! k = extract_individual ind"
    by force+
  have il: "insert_layers b k ind (length ([]::addr list)) st = Inr st"
    by (rule insert_layers_own[where post="[]"]) (use h0 Cons.prems(2) in auto)
  have "\<forall>i < length rest. Suc k + i < length b \<and> b ! (Suc k + i) = extract_individual (rest ! i)"
    using Cons.prems(1) by force
  from Cons.IH[OF this] Cons.prems(2) have "insert_individuals b rest (Suc k) st = Inr st" by simp
  then show ?case using il by simp
qed

lemma extract_params_nested: "extract_params nets = map concat (nested_layout nets)"
  by (simp add: extract_params_eq nested_layout_def extract_individual_eq)

lemma add_layers_loop_length:
  "add_layers_loop nn layer_config output_ml w = Inr (ml, w') \<Longrightarrow>
     length ml = length output_ml + length layer_config"
proof (induction layer_config arbitrary: output_ml w)
  case Nil
  then show ?case by simp
next
  case (Cons l rest)
  then show ?case by (fastforce split: sum.splits)
qed

lemma policy_heads_length:
  "policy_heads nn layer_config n heads w = Inr (hs, w') \<Longrightarrow> length hs = length heads + n"
proof (induction n arbitrary: heads w)
  case 0
  then show ?case by simp
next
  case (Suc n)
  then show ?case by (fastforce split: sum.splits)
qed

lemma init_model_layers_pop:
  assumes "init_model_layers nn net_cfg pop_size w = Inr (m, w')"
  shows "length (policy_nets m) = pop_size"
proof -
  from assms obtain sn w1 pn w2 where
    ph: "policy_heads nn (policy net_cfg) pop_size [] w1 = Inr (pn, w2)" and pm: "policy_nets m = pn"
    by (auto simp: init_model_layers_def split: sum.splits)
  from policy_heads_length[OF ph] pm show ?thesis by simp
qed

lemma grads_layer_eq:
  "grads_layer g ps acc =
     (if \<forall>p \<in> set (map snd ps). g p \<noteq> None then Inr (acc @ map (the \<circ> g) (map snd ps))
      else Inl AttributeError)"
proof (induction ps arbitrary: acc)
  case Nil
  then show ?case by simp
next
  case (Cons x ps)
  obtain name p where x: "x = (name, p)" by (cases x)
  show ?case
  proof (cases "g p")
    case None
    then show ?thesis using x by auto
  next
    case (Some gr)
    then show ?thesis using x Cons.IH[of "acc @ [gr]"] by (simp add: detach_def)
  qed
qed

lemma grads_individual_eq:
  "grads_individual g ls acc =
     (if \<forall>p \<in> set (extract_individual ls). g p \<noteq> None
      then Inr (acc @ map (the \<circ> g) (extract_individual ls))
      else Inl AttributeError)"
proof (induction ls arbitrary: acc)
  case Nil
  then show ?case by (simp add: extract_individual_eq)
next
  case (Cons l ls)
  show ?case
    by (simp add: grads_layer_eq Cons.IH extract_individual_eq) blast
qed

lemma grads_population_eq:
  "grads_population g nets acc =
     (if has_grad g nets then Inr (acc @ map (map (the \<circ> g)) (extract_params nets))
      else Inl AttributeError)"
proof (induction nets arbitrary: acc)
  case Nil
  then show ?case by (simp add: has_grad_def extract_params_eq)
next
  case (Cons individual nets)
  show ?case
    by (simp add: grads_individual_eq Cons.IH has_grad_def extract_params_eq)
qed

lemma assign_params_cong:
  assumes "\<forall>j. k \<le> j \<and> j < k + length ps \<longrightarrow> bundle_entry b i j = bundle_entry b' i j"
  shows "assign_params b i ps (sd, k) = assign_params b' i ps (sd, k)"
  using assms
proof (induction ps arbitrary: sd k)
  case Nil
  then show ?case by simp
next
  case (Cons x ps)
  obtain name p where x: "x = (name, p)" by (cases x)
  have e: "bundle_entry b i k = bundle_entry b' i k" using Cons.prems by simp
  have "assign_params b i ps (sd', Suc k) = assign_params b' i ps (sd', Suc k)" for sd'
    by (rule Cons.IH) (use Cons.prems in auto)
  then show ?case using x e by (simp split: sum.splits)
qed

lemma assign_params_idx:
  "assign_params b i ps (sd, k) = Inr (sd', k') \<Longrightarrow> k' = k + length ps"
proof (induction ps arbitrary: sd k)
  case Nil
  then show ?case by simp
next
  case (Cons x ps)
  obtain name p where x: "x = (name, p)" by (cases x)
  from Cons.prems x obtain t where
    "assign_params b i ps (sd(name \<mapsto> t), k + 1) = Inr (sd', k')"
    by (auto split: sum.splits)
  from Cons.IH[OF this] show ?case by simp
qed

lemma insert_layers_cong:
  assumes "\<forall>j. k \<le> j \<and> j < k + length (extract_individual ls) \<longrightarrow>
             bundle_entry b i j = bundle_entry b' i j"
  shows "insert_layers b i ls k st = insert_layers b' i ls k st"
  using assms
proof (induction ls arbitrary: k st)
  case Nil
  then show ?case by simp
next
  case (Cons l ls)
  let ?ps = "named_parameters l"
  have len: "length (extract_individual (l # ls)) = length ?ps + length (extract_individual ls)"
    by (simp add: extract_individual_eq)
  have a: "assign_params b i ?ps (state_dict l, k) = assign_params b' i ?ps (state_dict l, k)"
    by (rule assign_params_cong) (use Cons.prems len in auto)
  have r: "insert_layers b i ls (k + length ?ps) st' = insert_layers b' i ls (k + length ?ps) st'"
    for st' :: "'a store"
    by (rule Cons.IH) (use Cons.prems len in auto)
  show ?case
  proof (cases "assign_params b' i ?ps (state_dict l, k)")
    case (Inl e)
    then show ?thesis using a by simp
  next
    case (Inr res)
    obtain sd' k' where res: "res = (sd', k')" by (cases res)
    have "k' = k + length ?ps" using Inr res assign_params_idx by blast
    then show ?thesis using a Inr res r by (simp split: sum.splits)
  qed
qed

lemma insert_individuals_cong:
  assumes "\<forall>m < length rest. \<forall>j < length (extract_individual (rest ! m)).
             bundle_entry b (k + m) j = bundle_entry b' (k + m) j"
  shows "insert_individuals b rest k st = insert_individuals b' rest k st"
  using assms
proof (induction rest arbitrary: k st)
  case Nil
  then show ?case by simp
next
  case (Cons ind rest)
  have "\<forall>j < length (extract_individual ind). bundle_entry b k j = bundle_entry b' k j"
    using Cons.prems by force
  then have h: "insert_layers b k ind 0 st = insert_layers b' k ind 0 st"
    by (intro insert_layers_cong) simp
  have "\<forall>m < length rest. \<forall>j < length (extract_individual (rest ! m)).
             bundle_entry b (Suc k + m) j = bundle_entry b' (Suc k + m) j"
    using Cons.prems by force
  then have "insert_individuals b rest (Suc k) st' = insert_individuals b' rest (Suc k) st'"
    for st' :: "'a store"
    by (rule Cons.IH)
  then show ?case using h by (simp split: sum.splits)
qed

lemma consumed_entry:
  assumes "i < length nets" "j < length (extract_individual (nets ! i))"
  shows "bundle_entry (consumed nets b) i j = bundle_entry b i j"
proof (cases "i < length b")
  case True
  then have "consumed nets b ! i = take (length (extract_individual (nets ! i))) (b ! i)"
    using assms(1) by (simp add: consumed_def)
  then show ?thesis using True assms by (simp add: bundle_entry_def py_index_def consumed_def)
next
  case False
  then show ?thesis by (simp add: bundle_entry_def py_index_def consumed_def)
qed

lemma insert_params_consumed:
  "insert_params nets (consumed nets b) st = insert_params nets b st"
  unfolding insert_params_def
  by (rule insert_individuals_cong) (simp add: consumed_entry)

lemma shape_accepted_refl: "shape_accepted s s"
  by (auto simp: shape_accepted_def)

lemma load_input_Inl:
  "load_input P S = Inl e \<Longrightarrow> \<not> shape_accepted (shape P) (shape S)"
  by (auto simp: load_input_def shape_accepted_def split: if_splits)

lemma load_input_Inr:
  "load_input P S = Inr inp \<Longrightarrow> (shape inp = shape P) = shape_accepted (shape P) (shape S)"
  by (auto simp: load_input_def shape_accepted_def split: if_splits)

lemma load_from_state_dict_Inr:
  "load_from_state_dict sd es (st, ok) = Inr (st', ok') \<Longrightarrow>
     (\<lambda>a. shape (st' a)) = (\<lambda>a. shape (st a)) \<and>
     (ok' = (ok \<and> entries_accepted (\<lambda>a. shape (st a)) sd es))"
proof (induction es arbitrary: st ok)
  case Nil
  then show ?case by (simp add: entries_accepted_def)
next
  case (Cons x es)
  obtain name p where x: "x = (name, p)" by (cases x)
  let ?sh = "\<lambda>a. shape (st a)"
  have split: "entries_accepted ?sh sd (x # es) =
      ((case sd name of None \<Rightarrow> False | Some src \<Rightarrow> shape_accepted (?sh p) (?sh src))
       \<and> entries_accepted ?sh sd es)"
    using x by (simp add: entries_accepted_def)
  show ?case
  proof (cases "sd name")
    case None
    with Cons.prems x have "load_from_state_dict sd es (st, False) = Inr (st', ok')" by simp
    from Cons.IH[OF this] show ?thesis using None split by simp
  next
    case (Some src)
    show ?thesis
    proof (cases "load_input (st p) (st src)")
      case (Inl e)
      with Cons.prems x Some show ?thesis by simp
    next
      case (Inr inp)
      note acc = load_input_Inr[OF Inr]
      show ?thesis
      proof (cases "shape inp = shape (st p)")
        case False
        with Cons.prems x Some Inr have "load_from_state_dict sd es (st, False) = Inr (st', ok')"
          by simp
        from Cons.IH[OF this] show ?thesis using Some split acc False by simp
      next
        case True
        let ?st2 = "st(p := (st p)\<lparr>data := data inp\<rparr>)"
        have sh2: "(\<lambda>a. shape (?st2 a)) = ?sh" by (rule ext) simp
        from Cons.prems x Some Inr True
        have "load_from_state_dict sd es (?st2, ok) = Inr (st', ok')" by simp
        from Cons.IH[OF this] show ?thesis using Some split acc True sh2 by simp
      qed
    qed
  qed
qed

lemma load_from_state_dict_Inl:
  "load_from_state_dict sd es (st, ok) = Inl e \<Longrightarrow>
     \<not> entries_accepted (\<lambda>a. shape (st a)) sd es"
proof (induction es arbitrary: st ok)
  case Nil
  then show ?case by simp
next
  case (Cons x es)
  obtain name p where x: "x = (name, p)" by (cases x)
  let ?sh = "\<lambda>a. shape (st a)"
  have split: "entries_accepted ?sh sd (x # es) =
      ((case sd name of None \<Rightarrow> False | Some src \<Rightarrow> shape_accepted (?sh p) (?sh src))
       \<and> entries_accepted ?sh sd es)"
    using x by (simp add: entries_accepted_def)
  show ?case
  proof (cases "sd name")
    case None
    then show ?thesis using split by simp
  next
    case (Some src)
    show ?thesis
    proof (cases "load_input (st p) (st src)")
      case (Inl e')
      from load_input_Inl[OF Inl] show ?thesis using Some split by simp
    next
      case (Inr inp)
      note acc = load_input_Inr[OF Inr]
      show ?thesis
      proof (cases "shape inp = shape (st p)")
        case False
        then show ?thesis using Some split acc by simp
      next
        case True
        let ?st2 = "st(p := (st p)\<lparr>data := data inp\<rparr>)"
        have sh2: "(\<lambda>a. shape (?st2 a)) = ?sh" by (rule ext) simp
        from Cons.prems x Some Inr True
        have "load_from_state_dict sd es (?st2, ok) = Inl e" by simp
        from Cons.IH[OF this] show ?thesis using split sh2 by simp
      qed
    qed
  qed
qed

lemma load_state_dict_iff:
  "(\<exists>st'. load_state_dict sd l st = Inr st') =
     entries_accepted (\<lambda>a. shape (st a)) sd (named_parameters l @ named_buffers l)"
proof (cases "load_from_state_dict sd (named_parameters l @ named_buffers l) (st, True)")
  case (Inl e)
  from load_from_state_dict_Inl[OF Inl] Inl show ?thesis by (simp add: load_state_dict_def)
next
  case (Inr r)
  obtain st' ok' where r: "r = (st', ok')" by (cases r)
  from load_from_state_dict_Inr[OF Inr[unfolded r]] Inr r show ?thesis
    by (auto simp: load_state_dict_def)
qed

lemma load_state_dict_shapes:
  assumes "load_state_dict sd l st = Inr st'"
  shows "(\<lambda>a. shape (st' a)) = (\<lambda>a. shape (st a))"
proof -
  from assms obtain ok' where
    "load_from_state_dict sd (named_parameters l @ named_buffers l) (st, True) = Inr (st', ok')"
    by (auto simp: load_state_dict_def split: sum.splits if_splits)
  from load_from_state_dict_Inr[OF this] show ?thesis by simp
qed

lemma assign_params_iff:
  "(\<exists>r. assign_params b i ps (sd, k) = Inr r) =
     (\<forall>m < length ps. \<exists>t. bundle_entry b i (k + m) = Inr t)"
proof (induction ps arbitrary: sd k)
  case Nil
  then show ?case by simp
next
  case (Cons x ps)
  obtain name p where x: "x = (name, p)" by (cases x)
  show ?case
  proof (cases "bundle_entry b i k")
    case (Inl e)
    have "\<not> (\<forall>m < length (x # ps). \<exists>t. bundle_entry b i (k + m) = Inr t)"
      using Inl by (auto intro: exI[of _ 0])
    then show ?thesis using Inl x by simp
  next
    case (Inr t)
    have "(\<exists>r. assign_params b i (x # ps) (sd, k) = Inr r) =
          (\<exists>r. assign_params b i ps (sd(name \<mapsto> t), Suc k) = Inr r)"
      using Inr x by simp
    also have "\<dots> = (\<forall>m < length ps. \<exists>t. bundle_entry b i (Suc k + m) = Inr t)"
      by (rule Cons.IH)
    also have "\<dots> = (\<forall>m < length (x # ps). \<exists>t. bundle_entry b i (k + m) = Inr t)"
      using Inr by (auto simp: less_Suc_eq_0_disj)
    finally show ?thesis .
  qed
qed

lemma assign_params_sd:
  assumes "assign_params b i ps (sd, k) = Inr (sd', k')" "distinct (map fst ps)"
  shows "(\<forall>m < length ps. bundle_entry b i (k + m) = Inr (the (sd' (fst (ps ! m)))) \<and>
                          sd' (fst (ps ! m)) \<noteq> None) \<and>
         (\<forall>n. n \<notin> set (map fst ps) \<longrightarrow> sd' n = sd n)"
  using assms
proof (induction ps arbitrary: sd k)
  case Nil
  then show ?case by simp
next
  case (Cons x ps)
  obtain name p where x: "x = (name, p)" by (cases x)
  from Cons.prems(1) x obtain t where
    t: "bundle_entry b i k = Inr t" and
    r: "assign_params b i ps (sd(name \<mapsto> t), Suc k) = Inr (sd', k')"
    by (auto split: sum.splits)
  from Cons.prems(2) x have d: "distinct (map fst ps)" and nn: "name \<notin> set (map fst ps)"
    by auto
  note ih = Cons.IH[OF r d]
  from ih nn have s0: "sd' name = Some t" by simp
  have a: "bundle_entry b i (k + m) = Inr (the (sd' (fst ((x # ps) ! m)))) \<and>
           sd' (fst ((x # ps) ! m)) \<noteq> None" if "m < length (x # ps)" for m
  proof (cases m)
    case 0
    then show ?thesis using t s0 x by simp
  next
    case (Suc m')
    then have "m' < length ps" using that by simp
    with ih Suc show ?thesis by simp
  qed
  have c: "sd' n = sd n" if "n \<notin> set (map fst (x # ps))" for n
    using ih that x by auto
  from a c show ?case by blast
qed

lemma positions_fit_append:
  "positions_fit sh b i k (xs @ ys) =
     (positions_fit sh b i k xs \<and> positions_fit sh b i (k + length xs) ys)"
proof -
  have "(\<forall>m < length xs + length ys. P m) =
        ((\<forall>m < length xs. P m) \<and> (\<forall>m < length ys. P (length xs + m)))" for P
  proof (intro iffI conjI allI impI)
    fix m assume h: "(\<forall>m < length xs. P m) \<and> (\<forall>m < length ys. P (length xs + m))"
      and m: "m < length xs + length ys"
    show "P m"
    proof (cases "m < length xs")
      case True
      then show ?thesis using h by blast
    next
      case False
      then have "m - length xs < length ys" "length xs + (m - length xs) = m" using m by auto
      then show ?thesis using h by metis
    qed
  qed auto
  note general = this
  let ?Q = "\<lambda>m. case bundle_entry b i (k + m) of Inl e \<Rightarrow> False
                     | Inr t \<Rightarrow> shape_accepted (sh ((xs @ ys) ! m)) (sh t)"
  have A: "positions_fit sh b i k (xs @ ys) =
      ((\<forall>m < length xs. ?Q m) \<and> (\<forall>m < length ys. ?Q (length xs + m)))"
    using general[of ?Q] by (simp add: positions_fit_def)
  have B: "(\<forall>m < length xs. ?Q m) = positions_fit sh b i k xs"
    by (auto simp: positions_fit_def nth_append split: sum.splits)
  have C: "(\<forall>m < length ys. ?Q (length xs + m)) = positions_fit sh b i (k + length xs) ys"
    by (simp add: positions_fit_def add.assoc cong: sum.case_cong)
  show ?thesis unfolding A B C ..
qed

lemma layer_step_iff:
  assumes wf: "layer_wf l"
  shows "(\<exists>sd' k' st'. assign_params b i (named_parameters l) (state_dict l, k) = Inr (sd', k') \<and>
                        load_state_dict sd' l st = Inr st') =
         positions_fit (\<lambda>a. shape (st a)) b i k (map snd (named_parameters l))"
proof -
  let ?ps = "named_parameters l" and ?bs = "named_buffers l" and ?sh = "\<lambda>a. shape (st a)"
  from wf have dps: "distinct (map fst ?ps)" and
    disj: "\<And>n a. (n, a) \<in> set ?bs \<Longrightarrow> n \<notin> set (map fst ?ps)"
    unfolding layer_wf_def by (auto simp: rev_image_eqI)
  show ?thesis
  proof (cases "assign_params b i ?ps (state_dict l, k)")
    case (Inl e)
    then have "\<not> (\<forall>m < length ?ps. \<exists>t. bundle_entry b i (k + m) = Inr t)"
      using assign_params_iff[of b i ?ps "state_dict l" k] by simp
    then have "\<not> positions_fit ?sh b i k (map snd ?ps)"
      by (auto simp: positions_fit_def split: sum.splits)
    then show ?thesis using Inl by simp
  next
    case (Inr r)
    obtain sd' k' where r: "r = (sd', k')" by (cases r)
    note sd = assign_params_sd[OF Inr[unfolded r] dps]
    have bufs: "case sd' n of None \<Rightarrow> False | Some src \<Rightarrow> shape_accepted (?sh a) (?sh src)"
      if "(n, a) \<in> set ?bs" for n a
    proof -
      have "sd' n = state_dict l n" using sd disj[OF that] by blast
      also have "\<dots> = Some a" using state_dict_own[OF wf, of n a] that by simp
      finally show ?thesis by (simp add: shape_accepted_refl)
    qed
    have pars: "(\<forall>(n, p) \<in> set ?ps.
                   case sd' n of None \<Rightarrow> False | Some src \<Rightarrow> shape_accepted (?sh p) (?sh src)) =
                positions_fit ?sh b i k (map snd ?ps)"
    proof
      assume h: "\<forall>(n, p) \<in> set ?ps.
                   case sd' n of None \<Rightarrow> False | Some src \<Rightarrow> shape_accepted (?sh p) (?sh src)"
      show "positions_fit ?sh b i k (map snd ?ps)"
        unfolding positions_fit_def
      proof (intro allI impI)
        fix m assume m: "m < length (map snd ?ps)"
        then have mem: "(fst (?ps ! m), snd (?ps ! m)) \<in> set ?ps" by simp
        from sd m obtain t where t: "sd' (fst (?ps ! m)) = Some t"
          "bundle_entry b i (k + m) = Inr t" by auto
        from h mem t(1) have "shape_accepted (?sh (snd (?ps ! m))) (?sh t)" by fastforce
        then show "case bundle_entry b i (k + m) of Inl e \<Rightarrow> False
               | Inr t \<Rightarrow> shape_accepted (?sh (map snd ?ps ! m)) (?sh t)"
          using t(2) m by simp
      qed
    next
      assume h: "positions_fit ?sh b i k (map snd ?ps)"
      show "\<forall>(n, p) \<in> set ?ps.
                   case sd' n of None \<Rightarrow> False | Some src \<Rightarrow> shape_accepted (?sh p) (?sh src)"
      proof (clarify)
        fix n p assume "(n, p) \<in> set ?ps"
        then obtain m where m: "m < length ?ps" "?ps ! m = (n, p)" by (auto simp: in_set_conv_nth)
        from sd m obtain t where t: "sd' n = Some t" "bundle_entry b i (k + m) = Inr t" by force
        from h m t(2) have "shape_accepted (?sh p) (?sh t)"
          by (auto simp: positions_fit_def dest!: spec[of _ m])
        then show "case sd' n of None \<Rightarrow> False | Some src \<Rightarrow> shape_accepted (?sh p) (?sh src)"
          using t(1) by simp
      qed
    qed
    have "entries_accepted ?sh sd' (?ps @ ?bs) =
        ((\<forall>(n, p) \<in> set ?ps.
            case sd' n of None \<Rightarrow> False | Some src \<Rightarrow> shape_accepted (?sh p) (?sh src)) \<and>
         (\<forall>(n, a) \<in> set ?bs.
            case sd' n of None \<Rightarrow> False | Some src \<Rightarrow> shape_accepted (?sh a) (?sh src)))"
      unfolding entries_accepted_def by (simp add: ball_Un)
    also have "(\<forall>(n, a) \<in> set ?bs.
            case sd' n of None \<Rightarrow> False | Some src \<Rightarrow> shape_accepted (?sh a) (?sh src)) = True"
      using bufs by blast
    finally have "entries_accepted ?sh sd' (?ps @ ?bs) = positions_fit ?sh b i k (map snd ?ps)"
      using pars by simp
    then show ?thesis using Inr r load_state_dict_iff[of sd' l st] by simp
  qed
qed

lemma insert_layers_shapes:
  "insert_layers b i ls k st = Inr st' \<Longrightarrow> (\<lambda>a. shape (st' a)) = (\<lambda>a. shape (st a))"
proof (induction ls arbitrary: k st)
  case Nil
  then show ?case by simp
next
  case (Cons l ls)
  from Cons.prems obtain sd' k' st1 where
    "load_state_dict sd' l st = Inr st1" "insert_layers b i ls k' st1 = Inr st'"
    by (auto split: sum.splits)
  from load_state_dict_shapes[OF this(1)] Cons.IH[OF this(2)] show ?case by simp
qed

lemma insert_layers_iff:
  assumes "\<forall>l \<in> set ls. layer_wf l"
  shows "(\<exists>st'. insert_layers b i ls k st = Inr st') =
           positions_fit (\<lambda>a. shape (st a)) b i k (extract_individual ls)"
  using assms
proof (induction ls arbitrary: k st)
  case Nil
  then show ?case by (simp add: extract_individual_eq positions_fit_def)
next
  case (Cons l ls)
  let ?ps = "named_parameters l" and ?sh = "\<lambda>a. shape (st a)"
  have wf: "layer_wf l" and wfs: "\<forall>l \<in> set ls. layer_wf l" using Cons.prems by auto
  have ex: "extract_individual (l # ls) = map snd ?ps @ extract_individual ls"
    by (simp add: extract_individual_eq)
  have fit: "positions_fit ?sh b i k (extract_individual (l # ls)) =
      (positions_fit ?sh b i k (map snd ?ps) \<and>
       positions_fit ?sh b i (k + length ?ps) (extract_individual ls))"
    by (simp add: ex positions_fit_append)
  show ?case
  proof (cases "\<exists>sd' k' st1. assign_params b i ?ps (state_dict l, k) = Inr (sd', k') \<and>
                        load_state_dict sd' l st = Inr st1")
    case True
    then obtain sd' k' st1 where a: "assign_params b i ?ps (state_dict l, k) = Inr (sd', k')"
      and ld: "load_state_dict sd' l st = Inr st1" by blast
    have k': "k' = k + length ?ps" using assign_params_idx[OF a] .
    have sh1: "(\<lambda>a. shape (st1 a)) = ?sh" using load_state_dict_shapes[OF ld] .
    have "(\<exists>st'. insert_layers b i (l # ls) k st = Inr st') =
          (\<exists>st'. insert_layers b i ls k' st1 = Inr st')"
      using a ld by simp
    also have "\<dots> = positions_fit (\<lambda>a. shape (st1 a)) b i k' (extract_individual ls)"
      by (rule Cons.IH[OF wfs])
    also have "\<dots> = positions_fit ?sh b i k (extract_individual (l # ls))"
      using layer_step_iff[OF wf, of b i k st] True fit sh1 k' by simp
    finally show ?thesis .
  next
    case False
    then have nf: "\<not> positions_fit ?sh b i k (map snd ?ps)"
      using layer_step_iff[OF wf, of b i k st] by blast
    have "\<not> (\<exists>st'. insert_layers b i (l # ls) k st = Inr st')"
      using False by (auto split: sum.splits)
    then show ?thesis using nf fit by simp
  qed
qed

lemma insert_individuals_iff:
  assumes "\<forall>individual \<in> set rest. \<forall>l \<in> set individual. layer_wf l"
  shows "(\<exists>st'. insert_individuals b rest k st = Inr st') =
           (\<forall>m < length rest.
              positions_fit (\<lambda>a. shape (st a)) b (k + m) 0 (extract_individual (rest ! m)))"
  using assms
proof (induction rest arbitrary: k st)
  case Nil
  then show ?case by simp
next
  case (Cons ind rest)
  let ?sh = "\<lambda>a. shape (st a)"
  have wf: "\<forall>l \<in> set ind. layer_wf l"
    and wfs: "\<forall>individual \<in> set rest. \<forall>l \<in> set individual. layer_wf l"
    using Cons.prems by auto
  have split: "(\<forall>m < length (ind # rest).
              positions_fit ?sh b (k + m) 0 (extract_individual ((ind # rest) ! m))) =
      (positions_fit ?sh b k 0 (extract_individual ind) \<and>
       (\<forall>m < length rest. positions_fit ?sh b (Suc k + m) 0 (extract_individual (rest ! m))))"
    by (auto simp: less_Suc_eq_0_disj)
  show ?case
  proof (cases "insert_layers b k ind 0 st")
    case (Inl e)
    then have "\<not> positions_fit ?sh b k 0 (extract_individual ind)"
      using insert_layers_iff[OF wf, of b k 0 st] by simp
    then show ?thesis using Inl split by simp
  next
    case (Inr st1)
    then have f: "positions_fit ?sh b k 0 (extract_individual ind)"
      using insert_layers_iff[OF wf, of b k 0 st] by simp
    have sh1: "(\<lambda>a. shape (st1 a)) = ?sh" using insert_layers_shapes[OF Inr] .
    have "(\<exists>st'. insert_individuals b (ind # rest) k st = Inr st') =
          (\<exists>st'. insert_individuals b rest (Suc k) st1 = Inr st')"
      using Inr by simp
    also have "\<dots> = (\<forall>m < length rest.
        positions_fit (\<lambda>a. shape (st1 a)) b (Suc k + m) 0 (extract_individual (rest ! m)))"
      by (rule Cons.IH[OF wfs])
    finally show ?thesis using f split sh1 by simp
  qed
qed

lemma insert_params_iff:
  assumes "nets_wf nets"
  shows "(\<exists>st'. insert_params nets b st = Inr st') = bundle_fits st nets b"
  using insert_individuals_iff[of nets b 0 st] assms
  by (simp add: insert_params_def bundle_fits_def nets_wf_def)

lemma bundle_fits_iff:
  "bundle_fits st nets b =
     (\<forall>i < length nets. \<forall>j < length (extract_individual (nets ! i)).
        i < length b \<and> j < length (b ! i) \<and>
        shape_accepted (shape (st (extract_individual (nets ! i) ! j))) (shape (st (b ! i ! j))))"
  unfolding bundle_fits_def positions_fit_def bundle_entry_def py_index_def
  by (intro all_cong1 imp_cong refl) (auto split: sum.splits)

lemma sample_wf: "nets_wf sample_nets"
  by (simp add: nets_wf_def sample_nets_def layer_wf_def linear_layer_def)

lemma sample_extract: "extract_individual [linear_layer a] = [a, a + 1]"
  by (simp add: extract_individual_eq linear_layer_def)

subsection \<open>Helper lemmas for the ensemble evaluator\<close>

lemma argmax_scan_correct:
  assumes "bi < length ys" "best = ys ! bi" "\<forall>b < length ys. ys ! b \<le> best"
    "\<forall>b < bi. ys ! b < best"
  shows "argmax_scan xs (length ys) bi best < length (ys @ xs) \<and>
         (\<forall>b < length (ys @ xs). (ys @ xs) ! b \<le> (ys @ xs) ! argmax_scan xs (length ys) bi best) \<and>
         (\<forall>b < argmax_scan xs (length ys) bi best.
            (ys @ xs) ! b < (ys @ xs) ! argmax_scan xs (length ys) bi best)"
  using assms
proof (induction xs arbitrary: ys bi best)
  case Nil
  then show ?case by simp
next
  case (Cons x xs)
  have app: "ys @ x # xs = (ys @ [x]) @ xs" by simp
  show ?case
  proof (cases "best < x")
    case True
    have 1: "length ys < length (ys @ [x])" by simp
    have 2: "x = (ys @ [x]) ! length ys" by simp
    have 3: "\<forall>b < length (ys @ [x]). (ys @ [x]) ! b \<le> x"
      using Cons.prems(3) True by (auto simp: nth_append less_Suc_eq intro: less_imp_le order_trans)
    have 4: "\<forall>b < length ys. (ys @ [x]) ! b < x"
      using Cons.prems(3) True by (auto simp: nth_append intro: le_less_trans)
    from Cons.IH[OF 1 2 3 4] True show ?thesis unfolding app by simp
  next
    case False
    have 1: "bi < length (ys @ [x])" using Cons.prems(1) by simp
    have 2: "best = (ys @ [x]) ! bi" using Cons.prems(1,2) by (simp add: nth_append)
    have 3: "\<forall>b < length (ys @ [x]). (ys @ [x]) ! b \<le> best"
      using Cons.prems(3) False by (auto simp: nth_append less_Suc_eq)
    have 4: "\<forall>b < bi. (ys @ [x]) ! b < best"
      using Cons.prems(1,4) by (auto simp: nth_append)
    from Cons.IH[OF 1 2 3 4] False show ?thesis unfolding app by simp
  qed
qed

lemma np_argmax_correct:
  assumes "np_argmax xs = Inr a"
  shows "a < length xs \<and> (\<forall>b < length xs. xs ! b \<le> xs ! a) \<and> (\<forall>b < a. xs ! b < xs ! a)"
proof -
  from assms obtain x rest where xs: "xs = x # rest" and a: "a = argmax_scan rest 1 0 x"
    by (auto simp: np_argmax_def split: list.splits)
  from argmax_scan_correct[of 0 "[x]" x rest] show ?thesis unfolding xs a by simp
qed

lemma np_argmax_total: "xs \<noteq> [] \<Longrightarrow> \<exists>a. np_argmax xs = Inr a"
  by (cases xs) (simp_all add: np_argmax_def)

lemma tally_iff:
  "(\<exists>v. tally N votes pairs = Inr v) = (\<forall>(act, w) \<in> set pairs. act < length votes)"
proof (induction pairs arbitrary: votes)
  case Nil
  then show ?case by simp
next
  case (Cons p pairs)
  obtain act w where p: "p = (act, w)" by (cases p)
  show ?case using Cons.IH[of "votes[act := float_add N (votes ! act) w]"] p by simp
qed

lemma tally_votes:
  assumes "tally N votes pairs = Inr v"
  shows "length v = length votes \<and>
         (\<forall>k < length votes. v ! k =
            foldl (\<lambda>total (mod_action, weight).
                     if mod_action = k then float_add N total weight else total)
              (votes ! k) pairs)"
  using assms
proof (induction pairs arbitrary: votes)
  case Nil
  then show ?case by simp
next
  case (Cons p pairs)
  obtain act w where p: "p = (act, w)" by (cases p)
  from Cons.prems p have lt: "act < length votes"
    and r: "tally N (votes[act := float_add N (votes ! act) w]) pairs = Inr v"
    by (auto split: if_splits)
  from Cons.IH[OF r] lt show ?case using p by (auto simp: nth_list_update)
qed

lemma weighted_vote_votes:
  assumes "weighted_vote N n actions fitnesses = Inr a"
  shows "\<exists>v. tally N (replicate n 0) (zip actions fitnesses) = Inr v \<and> np_argmax v = Inr a \<and>
             length v = n \<and> (\<forall>k < n. v ! k = vote_total N actions fitnesses k)"
proof -
  from assms obtain v where t: "tally N (replicate n 0) (zip actions fitnesses) = Inr v"
    and a: "np_argmax v = Inr a"
    by (auto simp: weighted_vote_def split: sum.splits)
  from tally_votes[OF t] have "length v = n" "\<forall>k < n. v ! k = vote_total N actions fitnesses k"
    by (simp_all add: vote_total_def)
  with t a show ?thesis by blast
qed

lemma collect_actions_iff:
  "(actions \<in> collect_actions N forward idxs) =
     (length actions = length idxs \<and>
      (\<forall>i < length idxs. actions ! i \<in> get_action N forward (idxs ! i)))"
proof (induction idxs arbitrary: actions)
  case Nil
  then show ?case by simp
next
  case (Cons p ps)
  show ?case
  proof (cases actions)
    case Nil
    then show ?thesis by auto
  next
    case (Cons a as)
    then show ?thesis
      by (simp add: Cons.IH All_less_Suc2 image_iff) blast
  qed
qed

lemma vote_actions_iff:
  "(actions \<in> vote_actions N forward pop) =
     (length actions = pop \<and> (\<forall>i < pop. actions ! i \<in> get_action N forward i))"
  unfolding vote_actions_def collect_actions_iff by auto

lemma exact_softmax_sample: "exact_softmax [ln 3, 0] = [3 / 4, 1 / 4]"
  by (simp add: exact_softmax_def)

subsection \<open>Helper lemmas for the generation loop\<close>

lemma never_after_append:
  "never_after P Q (xs @ ys) =
     (never_after P Q xs \<and> never_after P Q ys \<and> ((\<exists>x \<in> set xs. P x) \<longrightarrow> (\<forall>y \<in> set ys. \<not> Q y)))"
  by (induction xs) (auto simp: list_all_iff)

lemma never_after_no_P: "\<forall>x \<in> set xs. \<not> P x \<Longrightarrow> never_after P Q xs"
  by (induction xs) auto

lemma never_after_no_Q: "\<forall>x \<in> set xs. \<not> Q x \<Longrightarrow> never_after P Q xs"
  by (induction xs) (auto simp: list_all_iff)

lemma generation_tags:
  "generation W cfg stop nets g s = (evs, r) \<Longrightarrow> \<forall>e \<in> set evs. gen_of e = g"
  by (auto simp: generation_def install_def Let_def
      split: sum.splits option.splits if_splits prod.splits)

lemma generation_insert_after_eval:
  "generation W cfg stop nets g s = (evs, r) \<Longrightarrow> never_after (is_insert_in g') (is_eval_in g') evs"
  by (auto simp: generation_def install_def Let_def never_after_append never_after_no_P
      split: sum.splits option.splits if_splits prod.splits)

lemma generation_eval_reads_preinstall:
  "generation W cfg stop nets g s = (evs, r) \<Longrightarrow> TestAlgorithm g1 st f \<in> set evs \<Longrightarrow>
     InsertParams g2 st' b \<in> set evs \<Longrightarrow> st' = st"
  by (auto simp: generation_def install_def Let_def
      split: sum.splits option.splits if_splits prod.splits)


lemma is_insert_in_gen: "is_insert_in g e \<Longrightarrow> gen_of e = g"
  by (cases e) auto

lemma is_eval_in_gen: "is_eval_in g e \<Longrightarrow> gen_of e = g"
  by (cases e) auto

lemma gen_loop_Suc_cases:
  assumes "gen_loop W cfg stop nets (Suc left) g s = (out, tr)"
  obtains (continue) evs s' tr' where
      "generation W cfg stop nets g s = (evs, Continue s')"
      "gen_loop W cfg stop nets left (Suc g) s' = (out, tr')" "tr = evs @ tr'"
    | (fitness) "generation W cfg stop nets g s = (tr, Break FitnessReached)"
      "out = StoppedByFitness g"
    | (budget) "generation W cfg stop nets g s = (tr, Break BudgetExceeded)"
      "out = StoppedByBudget g"
    | (crash) e where "generation W cfg stop nets g s = (tr, Raise e)" "out = Crashed g e"
  using assms by (auto split: prod.splits step.splits stop.splits)

lemma gen_loop_tags:
  "gen_loop W cfg stop nets left g s = (out, tr) \<Longrightarrow> \<forall>e \<in> set tr. g \<le> gen_of e"
proof (induction left arbitrary: g s out tr)
  case 0
  then show ?case by simp
next
  case (Suc left)
  from Suc.prems show ?case
  proof (cases rule: gen_loop_Suc_cases)
    case (continue evs s' tr')
    from generation_tags[OF continue(1)] Suc.IH[OF continue(2)] continue(3)
    show ?thesis by fastforce
  next
    case fitness
    from generation_tags[OF fitness(1)] show ?thesis by simp
  next
    case budget
    from generation_tags[OF budget(1)] show ?thesis by simp
  next
    case (crash e)
    from generation_tags[OF crash(1)] show ?thesis by simp
  qed
qed

lemma sample_extract_grads: "extract_grads sample_grads sample_nets = Inr exact_bundle"
  by (simp add: extract_grads_def sample_nets_def linear_layer_def sample_grads_def
      exact_bundle_def detach_def)

lemma sample_insert: "\<exists>st'. insert_params sample_nets exact_bundle sample_store = Inr st'"
  unfolding insert_params_iff[OF sample_wf] bundle_fits_iff
  by (simp add: sample_nets_def sample_extract exact_bundle_def shape_accepted_def
      sample_store_def less_Suc_eq numeral_2_eq_2)

lemma generation_fitness_after:
  "generation W cfg (Some T) nets g s = (evs, r) \<Longrightarrow>
     never_after (test_reaches T) (\<lambda>e. \<not> is_logging e) evs"
  by (auto simp: generation_def install_def Let_def never_after_append never_after_no_P
      split: sum.splits if_splits prod.splits)

lemma generation_fitness_stops:
  "generation W cfg (Some T) nets g s = (evs, r) \<Longrightarrow> \<exists>e \<in> set evs. test_reaches T e \<Longrightarrow>
     r = Break FitnessReached \<or> (exp_print_interval cfg = 0 \<and> r = Raise ZeroDivisionError)"
  by (auto simp: generation_def install_def Let_def
      split: sum.splits if_splits prod.splits)

lemma generation_fitness_reached:
  "generation W cfg stop nets g s = (evs, Break FitnessReached) \<Longrightarrow>
     \<exists>T. stop = Some T \<and> (\<exists>e \<in> set evs. test_reaches T e)"
  by (auto simp: generation_def install_def Let_def
      split: sum.splits option.splits if_splits prod.splits)

lemma test_reaches_cases:
  "test_reaches T e \<Longrightarrow> \<exists>st f. e = TestAlgorithm (gen_of e) st f \<and> T \<le> f"
  by (cases e) auto

lemma is_test_cases: "is_test e \<Longrightarrow> \<exists>st f. e = TestAlgorithm (gen_of e) st f"
  by (cases e) auto

lemma generation_unset_after:
  "generation W cfg None nets g s = (evs, r) \<Longrightarrow>
     never_after is_test (\<lambda>e. \<not> is_logging e) evs"
  by (auto simp: generation_def install_def Let_def never_after_append never_after_no_P
      split: sum.splits if_splits prod.splits)

lemma generation_unset_raises:
  "generation W cfg None nets g s = (evs, r) \<Longrightarrow> \<exists>e \<in> set evs. is_test e \<Longrightarrow>
     r = Raise (if exp_print_interval cfg = 0 then ZeroDivisionError else AttributeError)"
  by (auto simp: generation_def install_def Let_def
      split: sum.splits if_splits prod.splits)

lemma generation_unset_no_break:
  "generation W cfg None nets g s = (evs, r) \<Longrightarrow> r \<noteq> Break b"
  by (auto simp: generation_def install_def Let_def
      split: sum.splits if_splits prod.splits)


lemma fitness_stop_core:
  assumes "gen_loop W cfg (Some T) nets left gen_idx s = (out, tr)"
  shows "never_after (test_reaches T) (\<lambda>e. \<not> is_logging e) tr \<and>
         (TestAlgorithm g st f \<in> set tr \<and> T \<le> f \<longrightarrow>
            out = StoppedByFitness g \<or>
            (exp_print_interval cfg = 0 \<and> out = Crashed g ZeroDivisionError)) \<and>
         (out = StoppedByFitness g \<longrightarrow> (\<exists>st' f'. TestAlgorithm g st' f' \<in> set tr \<and> T \<le> f'))"
  using assms
proof (induction left arbitrary: gen_idx s out tr)
  case 0
  then show ?case by simp
next
  case (Suc left)
  from Suc.prems show ?case
  proof (cases rule: gen_loop_Suc_cases)
    case (continue evs s' tr')
    note ih = Suc.IH[OF continue(2)]
    have none: "\<not> (\<exists>e \<in> set evs. test_reaches T e)"
      using generation_fitness_stops[OF continue(1)] by auto
    have 1: "never_after (test_reaches T) (\<lambda>e. \<not> is_logging e) tr"
      using generation_fitness_after[OF continue(1)] ih none continue(3)
      by (simp add: never_after_append)
    have 2: "out = StoppedByFitness g \<or>
            (exp_print_interval cfg = 0 \<and> out = Crashed g ZeroDivisionError)"
      if "TestAlgorithm g st f \<in> set tr \<and> T \<le> f"
    proof -
      have "TestAlgorithm g st f \<notin> set evs" using none that by force
      then have "TestAlgorithm g st f \<in> set tr'" using that continue(3) by simp
      then show ?thesis using ih that by blast
    qed
    have 3: "\<exists>st' f'. TestAlgorithm g st' f' \<in> set tr \<and> T \<le> f'" if "out = StoppedByFitness g"
      using ih that continue(3) by auto
    from 1 2 3 show ?thesis by blast
  next
    case fitness
    from generation_fitness_reached[OF fitness(1)] obtain e where
      e: "e \<in> set tr" "test_reaches T e" by auto
    from test_reaches_cases[OF e(2)] generation_tags[OF fitness(1)] e(1)
    have 3: "\<exists>st' f'. TestAlgorithm gen_idx st' f' \<in> set tr \<and> T \<le> f'" by metis
    have 2: "g = gen_idx" if "TestAlgorithm g st f \<in> set tr"
      using generation_tags[OF fitness(1)] that by force
    from generation_fitness_after[OF fitness(1)] 2 3 fitness(2) show ?thesis by auto
  next
    case budget
    have "\<not> (\<exists>e \<in> set tr. test_reaches T e)"
      using generation_fitness_stops[OF budget(1)] by auto
    then have "\<not> (TestAlgorithm g st f \<in> set tr \<and> T \<le> f)" by force
    with generation_fitness_after[OF budget(1)] budget(2) show ?thesis by simp
  next
    case (crash e)
    have 2: "out = StoppedByFitness g \<or>
            (exp_print_interval cfg = 0 \<and> out = Crashed g ZeroDivisionError)"
      if h: "TestAlgorithm g st f \<in> set tr \<and> T \<le> f"
    proof -
      from h have "\<exists>e \<in> set tr. test_reaches T e" by force
      from generation_fitness_stops[OF crash(1) this]
      have "exp_print_interval cfg = 0 \<and> e = ZeroDivisionError" by simp
      moreover have "g = gen_idx" using generation_tags[OF crash(1)] h by force
      ultimately show ?thesis using crash(2) by simp
    qed
    from generation_fitness_after[OF crash(1)] 2 crash(2) show ?thesis by auto
  qed
qed


lemma sample_generation0:
  "\<exists>st'. generation sample_world sample_config (Some 475) sample_nets 0 sample_state
          = (sample_events, Continue \<lparr>timesteps = 20, last_log = 20, model = st'\<rparr>)"
proof -
  from sample_insert obtain st' where
    i: "insert_params sample_nets exact_bundle sample_store = Inr st'" by blast
  have e: "run_episodes sample_world 2 0 sample_state = sample_state\<lparr>timesteps := 20\<rparr>"
    by (simp add: run_episodes_def sample_world_def sample_state_def numeral_2_eq_2)
  have u: "update_evo_ac sample_world sample_nets 0 sample_store = Inr (sample_store, exact_bundle)"
    by (simp add: update_evo_ac_def sample_world_def sample_extract_grads)
  have p: "evo_pop_size sample_config = 2" by (simp add: sample_config_def)
  have r: "[0..<2] = [0, 1]" by (simp add: numeral_2_eq_2)
  have t: "test_algorithm sample_world 0 sample_store = Inr 100" by (simp add: sample_world_def)
  have m: "model sample_state = sample_store" "timesteps sample_state = 0"
    "last_log sample_state = - 9999999"
    by (simp_all add: sample_state_def)
  have c: "exp_log_interval sample_config = 5" "exp_timesteps sample_config = 1000"
    "exp_print_interval sample_config = 1"
    by (simp_all add: sample_config_def)
  show ?thesis
    unfolding generation_def p e
    by (simp add: Let_def r t u m c install_def i sample_events_def sample_state_def)
qed

lemma sample_loop:
  "gen_loop sample_world sample_config (Some 475) sample_nets 1 0 sample_state
     = (RanAllGenerations, sample_events)"
  using sample_generation0 by (auto simp: One_nat_def)

lemma sample_generation1:
  "generation sample_world sample_config (Some 475) sample_nets 1
     \<lparr>timesteps = 20, last_log = 20, model = st'\<rparr>
   = ([ResetStorage 1, RunEpisode 1 0, RunEpisode 1 1, UpdateEvoAC 1,
       TestAlgorithm 1 st' 500, SaveFitnesses 1 500, PrintData 1], Break FitnessReached)"
proof -
  have e: "run_episodes sample_world 2 g \<lparr>timesteps = 20, last_log = 20, model = st'\<rparr>
             = \<lparr>timesteps = 40, last_log = 20, model = st'\<rparr>" for g
    by (simp add: run_episodes_def sample_world_def numeral_2_eq_2)
  have u: "update_evo_ac sample_world sample_nets g st' = Inr (st', exact_bundle)" for g
    by (simp add: update_evo_ac_def sample_world_def sample_extract_grads)
  have p: "evo_pop_size sample_config = 2" by (simp add: sample_config_def)
  have r: "[0..<2] = [0, 1]" by (simp add: numeral_2_eq_2)
  have t: "test_algorithm sample_world (Suc 0) st' = Inr 500" by (simp add: sample_world_def)
  have c: "exp_log_interval sample_config = 5" "exp_timesteps sample_config = 1000"
    "exp_print_interval sample_config = 1"
    by (simp_all add: sample_config_def)
  show ?thesis
    unfolding generation_def p e
    by (simp add: Let_def r t u c)
qed

lemma sample_loop2:
  "\<exists>st'. gen_loop sample_world sample_config (Some 475) sample_nets 2 0 sample_state
     = (StoppedByFitness 1,
        sample_events @
        [ResetStorage 1, RunEpisode 1 0, RunEpisode 1 1, UpdateEvoAC 1,
         TestAlgorithm 1 st' 500, SaveFitnesses 1 500, PrintData 1])"
proof -
  from sample_generation0 obtain st' where
    g0: "generation sample_world sample_config (Some 475) sample_nets 0 sample_state
          = (sample_events, Continue \<lparr>timesteps = 20, last_log = 20, model = st'\<rparr>)"
    by blast
  have "gen_loop sample_world sample_config (Some 475) sample_nets (Suc (Suc 0)) 0 sample_state
     = (StoppedByFitness 1,
        sample_events @
        [ResetStorage 1, RunEpisode 1 0, RunEpisode 1 1, UpdateEvoAC 1,
         TestAlgorithm 1 st' 500, SaveFitnesses 1 500, PrintData 1])"
    using g0 sample_generation1[of st'] by simp
  then show ?thesis by (auto simp: numeral_2_eq_2)
qed

subsection \<open>Helper lemmas for the construction and the first generation\<close>

lemma run_episodes_fields:
  "model (run_episodes W pop g s) = model s \<and> last_log (run_episodes W pop g s) = last_log s \<and>
   timesteps s \<le> timesteps (run_episodes W pop g s)"
proof -
  have "model (foldl (\<lambda>s pop_idx. s\<lparr>timesteps := timesteps s + int (episode_steps W g pop_idx)\<rparr>) s xs)
          = model s \<and>
        last_log (foldl (\<lambda>s pop_idx. s\<lparr>timesteps := timesteps s + int (episode_steps W g pop_idx)\<rparr>) s xs)
          = last_log s \<and>
        timesteps s \<le>
          timesteps (foldl (\<lambda>s pop_idx. s\<lparr>timesteps := timesteps s + int (episode_steps W g pop_idx)\<rparr>) s xs)"
    for xs
  proof (induction xs arbitrary: s)
    case Nil
    then show ?case by simp
  next
    case (Cons x xs)
    from Cons.IH[of "s\<lparr>timesteps := timesteps s + int (episode_steps W g x)\<rparr>"]
    show ?case by simp
  qed
  then show ?thesis by (simp add: run_episodes_def)
qed

lemma first_generation_periodic:
  assumes "exp_log_interval cfg \<le> 9999999"
  shows "exp_log_interval cfg
           \<le> timesteps (run_episodes W pop 0 \<lparr>timesteps = 0, last_log = - 9999999, model = st0\<rparr>)
             - last_log (run_episodes W pop 0 \<lparr>timesteps = 0, last_log = - 9999999, model = st0\<rparr>)"
  using run_episodes_fields[of W pop 0 "\<lparr>timesteps = 0, last_log = - 9999999, model = st0\<rparr>"] assms
  by simp

lemma gen_loop_unfold:
  "gen_loop W cfg stop nets 10000 0 s =
     (case generation W cfg stop nets 0 s of
        (evs, Continue s') \<Rightarrow>
          (case gen_loop W cfg stop nets 9999 (Suc 0) s' of (out, tr) \<Rightarrow> (out, evs @ tr))
      | (evs, Break FitnessReached) \<Rightarrow> (StoppedByFitness 0, evs)
      | (evs, Break BudgetExceeded) \<Rightarrow> (StoppedByBudget 0, evs)
      | (evs, Raise e) \<Rightarrow> (Crashed 0 e, evs))"
proof -
  have "(10000::nat) = Suc 9999" by simp
  then show ?thesis by (simp only: gen_loop.simps)
qed




lemma init_runner_succeeds:
  assumes "gym_make (exp_env cfg) = Inr e1" "evoac_logger cfg = Inr lg"
  shows "\<exists>r. init_runner gym_make evoac_logger cuda cfg = Inr r \<and> config r = cfg \<and>
             env r = e1 \<and> test_env r = e1 \<and> logger r = lg"
  using assms by (simp add: init_runner_def Let_def)

lemma init_runner_config:
  "init_runner gym_make evoac_logger cuda cfg = Inr r \<Longrightarrow> config r = cfg"
  by (auto simp: init_runner_def Let_def split: sum.splits)

lemma init_runner_no_threshold:
  "exp_env cfg \<noteq> ''CartPole-v1'' \<Longrightarrow> exp_env cfg \<noteq> ''LunarLander-v2'' \<Longrightarrow>
     init_runner gym_make evoac_logger cuda cfg = Inr r \<Longrightarrow> stop_fit r = None"
  by (auto simp: init_runner_def Let_def split: sum.splits)


lemma unset_core:
  assumes "gen_loop W cfg None nets left gen_idx s = (out, tr)"
  shows "never_after is_test (\<lambda>e. \<not> is_logging e) tr \<and>
         (TestAlgorithm g st f \<in> set tr \<longrightarrow>
            out = Crashed g (if exp_print_interval cfg = 0 then ZeroDivisionError
                             else AttributeError)) \<and>
         out \<noteq> StoppedByFitness g \<and> out \<noteq> StoppedByBudget g"
  using assms
proof (induction left arbitrary: gen_idx s out tr)
  case 0
  then show ?case by simp
next
  case (Suc left)
  from Suc.prems show ?case
  proof (cases rule: gen_loop_Suc_cases)
    case (continue evs s' tr')
    note ih = Suc.IH[OF continue(2)]
    have none: "\<not> (\<exists>e \<in> set evs. is_test e)"
      using generation_unset_raises[OF continue(1)] by (auto split: if_splits)
    have 1: "never_after is_test (\<lambda>e. \<not> is_logging e) tr"
      using generation_unset_after[OF continue(1)] ih none continue(3)
      by (simp add: never_after_append)
    have 2: "out = Crashed g (if exp_print_interval cfg = 0 then ZeroDivisionError
                              else AttributeError)"
      if "TestAlgorithm g st f \<in> set tr"
    proof -
      have "TestAlgorithm g st f \<notin> set evs" using none by force
      then have "TestAlgorithm g st f \<in> set tr'" using that continue(3) by simp
      then show ?thesis using ih by blast
    qed
    from 1 2 ih show ?thesis by blast
  next
    case fitness
    from generation_unset_no_break[OF fitness(1), of FitnessReached] show ?thesis by simp
  next
    case budget
    from generation_unset_no_break[OF budget(1), of BudgetExceeded] show ?thesis by simp
  next
    case (crash e)
    have 2: "out = Crashed g (if exp_print_interval cfg = 0 then ZeroDivisionError
                              else AttributeError)"
      if h: "TestAlgorithm g st f \<in> set tr"
    proof -
      from h have "\<exists>e \<in> set tr. is_test e" by force
      from generation_unset_raises[OF crash(1) this]
      have "e = (if exp_print_interval cfg = 0 then ZeroDivisionError else AttributeError)"
        by simp
      moreover have "g = gen_idx" using generation_tags[OF crash(1)] h by force
      ultimately show ?thesis using crash(2) by simp
    qed
    from generation_unset_after[OF crash(1)] 2 crash(2) show ?thesis by auto
  qed
qed

lemma first_generation_unset:
  assumes "exp_log_interval cfg \<le> 9999999"
    "update_evo_ac W nets 0 st0 = Inr (st2, b)" "test_algorithm W 0 st2 = Inr f"
  shows "gen_loop W cfg None nets 10000 0 \<lparr>timesteps = 0, last_log = - 9999999, model = st0\<rparr> =
           (Crashed 0 (if exp_print_interval cfg = 0 then ZeroDivisionError else AttributeError),
            ResetStorage 0 # map (RunEpisode 0) [0..<evo_pop_size cfg] @
            [UpdateEvoAC 0, TestAlgorithm 0 st2 f, SaveFitnesses 0 f] @
            (if exp_print_interval cfg = 0 then [] else [PrintData 0]))"
proof -
  let ?s0 = "\<lparr>timesteps = 0, last_log = - 9999999, model = st0\<rparr>"
  have m: "model (run_episodes W (evo_pop_size cfg) 0 ?s0) = st0"
    using run_episodes_fields[of W "evo_pop_size cfg" 0 ?s0] by simp
  have "generation W cfg None nets 0 ?s0 =
          (ResetStorage 0 # map (RunEpisode 0) [0..<evo_pop_size cfg] @
            [UpdateEvoAC 0, TestAlgorithm 0 st2 f, SaveFitnesses 0 f] @
            (if exp_print_interval cfg = 0 then [] else [PrintData 0]),
           Raise (if exp_print_interval cfg = 0 then ZeroDivisionError else AttributeError))"
    unfolding generation_def
    using first_generation_periodic[OF assms(1), of W "evo_pop_size cfg" st0] assms(2-3) m
    by (simp add: Let_def)
  then show ?thesis
    unfolding gen_loop_unfold by simp
qed


subsection \<open>Helper lemmas: the evaluation with a test strategy that is none of the three\<close>





subsection \<open>The sample runs\<close>

lemma sample_init_model:
  "init_evoac_model sample_setup linear_net_config cfg dev
     = Inr (\<lparr>shared_net = [], policy_nets = sample_nets, value_net = []\<rparr>, 4)"
  if "evo_pop_size cfg = 2"
proof -
  have "init_model_layers sample_nn linear_net_config 2 (0::nat)
          = Inr (\<lparr>shared_net = [], policy_nets = sample_nets, value_net = []\<rparr>, 4)"
    by (simp add: init_model_layers_def add_layers_def add_layer_def sample_nn_def
        linear_net_config_def linear_layer_def sample_nets_def numeral_2_eq_2)
  then show ?thesis
    using that by (simp add: init_evoac_model_def sample_setup_def)
qed

lemma sample_reset:
  "reset_experiment sample_setup linear_net_config (sample_runner cfg stop e)
     = Inr (\<lparr>shared_net = [], policy_nets = sample_nets, value_net = []\<rparr>, sample_store)"
  if "evo_pop_size cfg = 2"
proof -
  have "init_evoac_model sample_setup linear_net_config cfg Cpu
          = Inr (\<lparr>shared_net = [], policy_nets = sample_nets, value_net = []\<rparr>, 4)"
    by (rule sample_init_model[OF that])
  then show ?thesis
    by (simp add: reset_experiment_def sample_setup_def sample_runner_def)
qed

lemma sample_update:
  "update_evo_ac sample_world sample_nets 0 sample_store = Inr (sample_store, exact_bundle)"
  "update_evo_ac greedy_world sample_nets 0 sample_store = Inr (sample_store, exact_bundle)"
  by (simp_all add: update_evo_ac_def greedy_world_def sample_world_def sample_extract_grads)

lemma sample_range: "[0..<2] = [0, 1]"
  by (simp add: numeral_2_eq_2)


lemma sample_run_unset:
  assumes "exp_log_interval cfg \<le> 9999999" "evo_pop_size cfg = 2"
  shows "run_experiment sample_setup sample_world linear_net_config (sample_runner cfg None e)
     = Inr (Crashed 0 (if exp_print_interval cfg = 0 then ZeroDivisionError else AttributeError),
            [ResetStorage 0, RunEpisode 0 0, RunEpisode 0 1, UpdateEvoAC 0,
             TestAlgorithm 0 sample_store 100, SaveFitnesses 0 100] @
            (if exp_print_interval cfg = 0 then [] else [PrintData 0]))"
proof -
  have t: "test_algorithm sample_world 0 sample_store = Inr 100"
    by (simp add: sample_world_def)
  from first_generation_unset[OF assms(1) sample_update(1) t]
    sample_reset[OF assms(2), of None e] assms(2)
  show ?thesis
    by (simp add: run_experiment_def sample_runner_def sample_range)
qed

lemma sample_init:
  "init_runner sample_gym_make sample_logger False greedy_config
     = Inr (sample_runner greedy_config (Some 475) 0)"
  "init_runner sample_gym_make sample_logger False cartpole_v0_config
     = Inr (sample_runner cartpole_v0_config None 1)"
  "init_runner sample_gym_make sample_logger False zero_print_config
     = Inr (sample_runner zero_print_config None 1)"
  "init_runner sample_gym_make sample_logger False unknown_env_config = Inl CollaboratorError"
  by (simp_all add: init_runner_def sample_gym_make_def sample_logger_def sample_runner_def
      set_device_def greedy_config_def cartpole_v0_config_def zero_print_config_def
      unknown_env_config_def sample_config_def)


subsection \<open>C1: inserting what was just extracted changes nothing\<close>

text \<open>
  C1. For every state of the population network (every store of tensors and every list of
  heads whose layers have distinct names), \<open>insert_params\<close> applied to the bundle that
  \<open>extract_params\<close> returns succeeds and leaves the store as it was: every tensor,
  so every head parameter of every individual, layer and position, keeps its value.
\<close>

theorem insert_extract_roundtrip:
  assumes "nets_wf nets"
  shows "insert_params nets (extract_params nets) st = Inr st"
  unfolding insert_params_def
  by (rule insert_individuals_own) (use assms in \<open>auto simp: extract_params_eq nets_wf_def\<close>)

theorem insert_extract_roundtrip_witness:
  "nets_wf sample_nets \<and>
   insert_params sample_nets (extract_params sample_nets) sample_store = Inr sample_store"
proof -
  have wf: "nets_wf sample_nets"
    by (simp add: nets_wf_def sample_nets_def layer_wf_def linear_layer_def)
  show ?thesis using wf insert_extract_roundtrip [OF wf, of sample_store] by simp
qed

subsection \<open>C2: the actions that weightedvote votes on\<close>

text \<open>
  C2 as stated says that under weightedvote each individual contributes its most likely
  action. It contributes the result of \<open>get_action\<close>, which samples: an individual
  whose action probabilities are \<open>3/4\<close> and \<open>1/4\<close>, so that action 0 is its most likely
  action, can contribute action 1, and the evaluator can then select action 1.
\<close>

theorem weightedvote_greedy_counterexample:
  "f_softmax exact_numerics (sample_forward 0) = [3 / 4, 1 / 4] \<and>
   np_argmax (f_softmax exact_numerics (sample_forward 0)) = Inr 0 \<and>
   1 \<in> get_action exact_numerics sample_forward 0 \<and>
   [1] \<in> vote_actions exact_numerics sample_forward 1 \<and>
   Inr 1 \<in> get_test_action exact_numerics ''weightedvote'' 1 2 sample_forward [1]"
proof -
  have s: "f_softmax exact_numerics (sample_forward 0) = [3 / 4, 1 / 4]"
    by (simp add: exact_numerics_def sample_forward_def exact_softmax_sample)
  have a: "np_argmax (f_softmax exact_numerics (sample_forward 0)) = Inr 0"
    by (simp add: s np_argmax_def)
  have g: "1 \<in> get_action exact_numerics sample_forward 0"
    by (simp add: get_action_def s categorical_sample_def)
  have v: "[1] \<in> vote_actions exact_numerics sample_forward 1"
    using g by (simp add: vote_actions_iff)
  have w: "weighted_vote exact_numerics 2 [1] [1] = Inr 1"
    by (simp add: weighted_vote_def numeral_2_eq_2 np_argmax_def exact_numerics_def)
  have "Inr 1 \<in> (\<lambda>actions. weighted_vote exact_numerics 2 actions [1])
                  ` vote_actions exact_numerics sample_forward 1"
    using v w by (metis image_eqI)
  then have t: "Inr 1 \<in> get_test_action exact_numerics ''weightedvote'' 1 2 sample_forward [1]"
    by (simp add: get_test_action_def)
  from s a g v t show ?thesis by blast
qed

text \<open>
  C2, amended. Under weightedvote, at every step the action obtained from each individual
  is sampled from that individual's own policy distribution, the softmax of its policy
  logits: it is an action to which this distribution gives a positive probability, not
  necessarily the most likely one. The results of the strategy are the votes over the
  lists of such actions, one for each individual.
\<close>

theorem weightedvote_actions_sampled:
  "(r \<in> get_test_action N ''weightedvote'' pop n forward fitnesses) =
     (\<exists>actions. length actions = pop \<and>
        (\<forall>pop_idx < pop.
           actions ! pop_idx < length (f_softmax N (forward pop_idx)) \<and>
           0 < f_softmax N (forward pop_idx) ! (actions ! pop_idx)) \<and>
        r = weighted_vote N n actions fitnesses)"
proof -
  have "(r \<in> get_test_action N ''weightedvote'' pop n forward fitnesses) =
          (\<exists>actions. actions \<in> vote_actions N forward pop \<and>
                     r = weighted_vote N n actions fitnesses)"
    by (auto simp: get_test_action_def)
  then show ?thesis
    by (simp add: vote_actions_iff get_action_def categorical_sample_def)
qed

theorem weightedvote_actions_sampled_witness:
  "Inr 1 \<in> get_test_action exact_numerics ''weightedvote'' 2 2 sample_forward [5, 1] \<and>
   f_softmax exact_numerics (sample_forward 0) ! 1 = 1 / 4 \<and>
   f_softmax exact_numerics (sample_forward 1) ! 0 = 3 / 4 \<and>
   weighted_vote exact_numerics 2 [1, 0] [5, 1] = Inr 1"
proof -
  have s: "f_softmax exact_numerics (sample_forward i) = [3 / 4, 1 / 4]" for i
    by (simp add: exact_numerics_def sample_forward_def exact_softmax_sample)
  have w: "weighted_vote exact_numerics 2 [1, 0] [5, 1] = Inr 1"
    by (simp add: weighted_vote_def numeral_2_eq_2 np_argmax_def exact_numerics_def)
  have q: "\<forall>pop_idx < 2.
           [1, 0] ! pop_idx < length (f_softmax exact_numerics (sample_forward pop_idx)) \<and>
           0 < f_softmax exact_numerics (sample_forward pop_idx) ! ([1, 0] ! pop_idx)"
    by (simp add: s less_Suc_eq numeral_2_eq_2)
  have "\<exists>actions. length actions = 2 \<and>
        (\<forall>pop_idx < 2.
           actions ! pop_idx < length (f_softmax exact_numerics (sample_forward pop_idx)) \<and>
           0 < f_softmax exact_numerics (sample_forward pop_idx) ! (actions ! pop_idx)) \<and>
        (Inr 1 :: error + nat) = weighted_vote exact_numerics 2 actions [5, 1]"
    using q w by (intro exI[of _ "[1, 0]"]) simp
  with weightedvote_actions_sampled [of "Inr 1" exact_numerics 2 2 sample_forward "[5, 1]"]
  have "Inr 1 \<in> get_test_action exact_numerics ''weightedvote'' 2 2 sample_forward [5, 1]"
    by blast
  with s w show ?thesis by simp
qed

subsection \<open>C3: the new heads are installed after the evaluation\<close>

text \<open>
  C3. In the trace of the generation loop, once \<open>insert_params\<close> of a generation has been
  called, no evaluation or logging of that generation happens any more; and when a
  generation has both an evaluation and an install, the model state the evaluation read
  is the state that \<open>insert_params\<close> then overwrites, so the evaluation reads the head
  parameters from before the install.
\<close>

theorem insert_after_evaluation:
  assumes "gen_loop W cfg stop nets left gen_idx s = (out, tr)"
  shows "never_after (is_insert_in g) (is_eval_in g) tr \<and>
         (TestAlgorithm g st f \<in> set tr \<longrightarrow> InsertParams g st' b \<in> set tr \<longrightarrow> st' = st)"
  using assms
proof (induction left arbitrary: gen_idx s out tr)
  case 0
  then show ?case by simp
next
  case (Suc left)
  from Suc.prems show ?case
  proof (cases rule: gen_loop_Suc_cases)
    case (continue evs s' tr')
    note tags = generation_tags[OF continue(1)] and later = gen_loop_tags[OF continue(2)]
    note ih = Suc.IH[OF continue(2)]
    have cross: "(\<exists>x \<in> set evs. is_insert_in g x) \<longrightarrow> (\<forall>y \<in> set tr'. \<not> is_eval_in g y)"
    proof (intro impI ballI notI)
      fix y assume "\<exists>x \<in> set evs. is_insert_in g x" and y: "y \<in> set tr'" and "is_eval_in g y"
      then have "g = gen_idx" "gen_of y = g" using tags is_insert_in_gen is_eval_in_gen by blast+
      with later y show False by fastforce
    qed
    have 1: "never_after (is_insert_in g) (is_eval_in g) tr"
      using generation_insert_after_eval[OF continue(1)] ih cross continue(3)
      by (simp add: never_after_append)
    have 2: "st' = st" if t: "TestAlgorithm g st f \<in> set tr" and i: "InsertParams g st' b \<in> set tr"
    proof (cases "g = gen_idx")
      case True
      have "TestAlgorithm g st f \<in> set evs" "InsertParams g st' b \<in> set evs"
        using t i later True continue(3) by fastforce+
      then show ?thesis using generation_eval_reads_preinstall[OF continue(1)] by blast
    next
      case False
      have "TestAlgorithm g st f \<in> set tr'" "InsertParams g st' b \<in> set tr'"
        using t i tags False continue(3) by fastforce+
      then show ?thesis using ih by blast
    qed
    from 1 2 show ?thesis by blast
  next
    case fitness
    from generation_insert_after_eval[OF fitness(1)] generation_eval_reads_preinstall[OF fitness(1)]
    show ?thesis by blast
  next
    case budget
    from generation_insert_after_eval[OF budget(1)] generation_eval_reads_preinstall[OF budget(1)]
    show ?thesis by blast
  next
    case (crash e)
    from generation_insert_after_eval[OF crash(1)] generation_eval_reads_preinstall[OF crash(1)]
    show ?thesis by blast
  qed
qed

theorem insert_after_evaluation_witness:
  "gen_loop sample_world sample_config (Some 475) sample_nets 1 0 sample_state
     = (RanAllGenerations, sample_events) \<and>
   never_after (is_insert_in 0) (is_eval_in 0) sample_events \<and>
   TestAlgorithm 0 sample_store 100 \<in> set sample_events \<and>
   InsertParams 0 sample_store exact_bundle \<in> set sample_events"
proof -
  have m: "TestAlgorithm 0 sample_store 100 \<in> set sample_events"
    "InsertParams 0 sample_store exact_bundle \<in> set sample_events"
    by (simp_all add: sample_events_def)
  from insert_after_evaluation [OF sample_loop, of 0 sample_store 100 sample_store exact_bundle]
  have "never_after (is_insert_in 0) (is_eval_in 0) sample_events" by blast
  with sample_loop m show ?thesis by blast
qed

subsection \<open>C4: the stop at the fitness threshold\<close>

text \<open>
  C4. With a stop-fitness threshold \<open>T\<close>, the run ends at the first periodic evaluation
  whose mean fitness is at least \<open>T\<close>: after such an evaluation nothing but the logging
  of the same generation happens (no install, no further generation), and the loop is left
  by the fitness break of that generation (unless a print interval of 0 makes the logging
  raise first). The fitness break fires only there: a run stopped by fitness in
  generation \<open>g\<close> has an evaluation of generation \<open>g\<close> with mean fitness at least \<open>T\<close>,
  and every evaluation of another generation had a mean fitness below \<open>T\<close>.
\<close>

theorem fitness_stop:
  assumes "gen_loop W cfg (Some T) nets left gen_idx s = (out, tr)"
  shows "never_after (test_reaches T) (\<lambda>e. \<not> is_logging e) tr \<and>
         (\<forall>g st f. TestAlgorithm g st f \<in> set tr \<and> T \<le> f \<longrightarrow>
            out = StoppedByFitness g \<or>
            (exp_print_interval cfg = 0 \<and> out = Crashed g ZeroDivisionError)) \<and>
         (\<forall>g. out = StoppedByFitness g \<longrightarrow>
            (\<exists>st f. TestAlgorithm g st f \<in> set tr \<and> T \<le> f) \<and>
            (\<forall>g' st f. TestAlgorithm g' st f \<in> set tr \<and> g' \<noteq> g \<longrightarrow> f < T))"
proof (intro conjI allI impI)
  show "never_after (test_reaches T) (\<lambda>e. \<not> is_logging e) tr"
    using fitness_stop_core[OF assms] by blast
next
  fix g st f assume "TestAlgorithm g st f \<in> set tr \<and> T \<le> f"
  then show "out = StoppedByFitness g \<or>
            (exp_print_interval cfg = 0 \<and> out = Crashed g ZeroDivisionError)"
    using fitness_stop_core[OF assms, of g st f] by blast
next
  fix g assume "out = StoppedByFitness g"
  then show "\<exists>st f. TestAlgorithm g st f \<in> set tr \<and> T \<le> f"
    using fitness_stop_core[OF assms, of g] by blast
next
  fix g g' st f assume o: "out = StoppedByFitness g" and h: "TestAlgorithm g' st f \<in> set tr \<and> g' \<noteq> g"
  show "f < T"
  proof (rule ccontr)
    assume "\<not> f < T"
    then have "TestAlgorithm g' st f \<in> set tr \<and> T \<le> f" using h by simp
    from fitness_stop_core[OF assms, of g' st f] this o h show False by auto
  qed
qed

theorem fitness_stop_witness:
  "\<exists>st'. gen_loop sample_world sample_config (Some 475) sample_nets 2 0 sample_state
     = (StoppedByFitness 1,
        sample_events @
        [ResetStorage 1, RunEpisode 1 0, RunEpisode 1 1, UpdateEvoAC 1,
         TestAlgorithm 1 st' 500, SaveFitnesses 1 500, PrintData 1]) \<and>
     TestAlgorithm 0 sample_store 100 \<in> set sample_events \<and> (100::real) < 475 \<and>
     (475::real) \<le> 500 \<and>
     never_after (test_reaches 475) (\<lambda>e. \<not> is_logging e)
       (sample_events @
        [ResetStorage 1, RunEpisode 1 0, RunEpisode 1 1, UpdateEvoAC 1,
         TestAlgorithm 1 st' 500, SaveFitnesses 1 500, PrintData 1])"
proof -
  from sample_loop2 obtain st' where
    l: "gen_loop sample_world sample_config (Some 475) sample_nets 2 0 sample_state
     = (StoppedByFitness 1,
        sample_events @
        [ResetStorage 1, RunEpisode 1 0, RunEpisode 1 1, UpdateEvoAC 1,
         TestAlgorithm 1 st' 500, SaveFitnesses 1 500, PrintData 1])" by blast
  have m: "TestAlgorithm 0 sample_store 100 \<in> set sample_events"
    by (simp add: sample_events_def)
  from fitness_stop [OF l] m l show ?thesis by auto
qed

subsection \<open>C5: what insert_params does with a bundle of another layout\<close>

text \<open>
  C5 as stated says that every bundle whose layout differs from the extracted one makes
  the call fail and that surplus entries are never silently dropped. A bundle with a third
  individual for a population of two, and a third tensor for the first individual, is
  installed without an error.
\<close>

theorem insert_params_surplus_counterexample:
  "\<not> isl (insert_params sample_nets surplus_bundle sample_store) \<and>
   length surplus_bundle \<noteq> length (extract_params sample_nets) \<and>
   map length surplus_bundle \<noteq> map length (extract_params sample_nets)"
  by (simp add: insert_params_def sample_nets_def linear_layer_def surplus_bundle_def
      bundle_entry_def py_index_def state_dict_def load_state_dict_def load_input_def
      sample_store_def extract_params_eq extract_individual_eq)

text \<open>
  C5, amended. \<open>insert_params\<close> reads, for each individual of the population, the first
  entries of that individual's list, one per head parameter. It fails exactly when, at one
  of these positions, the bundle has no individual, or the individual's list has no entry,
  or the entry has a shape that \<open>load_state_dict\<close> does not accept for the parameter
  (any shape but the parameter's own, save a non-empty one-dimensional entry for a
  zero-dimensional parameter); so it never pads. Individuals beyond the population and
  entries beyond the head's parameters are not read: the call does what it does on the
  bundle cut down to the part that is read.
\<close>

theorem insert_params_mismatch:
  assumes "nets_wf nets"
  shows "((\<exists>e. insert_params nets b st = Inl e) =
          (\<exists>i < length nets. \<exists>j < length (extract_individual (nets ! i)).
             length b \<le> i \<or> length (b ! i) \<le> j \<or>
             \<not> shape_accepted (shape (st (extract_individual (nets ! i) ! j)))
                  (shape (st (b ! i ! j))))) \<and>
         insert_params nets b st = insert_params nets (consumed nets b) st"
proof -
  have "(\<exists>e. insert_params nets b st = Inl e) = (\<not> (\<exists>st'. insert_params nets b st = Inr st'))"
    by (cases "insert_params nets b st") auto
  also have "\<dots> = (\<not> bundle_fits st nets b)"
    using insert_params_iff[OF assms, of b st] by simp
  also have "\<dots> = (\<exists>i < length nets. \<exists>j < length (extract_individual (nets ! i)).
             length b \<le> i \<or> length (b ! i) \<le> j \<or>
             \<not> shape_accepted (shape (st (extract_individual (nets ! i) ! j)))
                  (shape (st (b ! i ! j))))"
    unfolding bundle_fits_iff by (auto simp: not_less)
  finally show ?thesis using insert_params_consumed[of nets b st] by simp
qed

theorem insert_params_mismatch_witness:
  "nets_wf sample_nets \<and>
   (\<exists>e. insert_params sample_nets short_bundle sample_store = Inl e) \<and>
   (\<exists>e. insert_params sample_nets swapped_bundle sample_store = Inl e) \<and>
   insert_params sample_nets surplus_bundle sample_store =
     insert_params sample_nets exact_bundle sample_store"
proof -
  have wf: "nets_wf sample_nets"
    by (simp add: nets_wf_def sample_nets_def layer_wf_def linear_layer_def)
  let ?bad = "\<lambda>b. \<exists>i < length sample_nets. \<exists>j < length (extract_individual (sample_nets ! i)).
             length b \<le> i \<or> length (b ! i) \<le> j \<or>
             \<not> shape_accepted (shape (sample_store (extract_individual (sample_nets ! i) ! j)))
                  (shape (sample_store (b ! i ! j)))"
  have "(1::nat) < length sample_nets \<and> 0 < length (extract_individual (sample_nets ! 1)) \<and>
        length short_bundle \<le> 1"
    by (simp add: sample_nets_def sample_extract short_bundle_def)
  then have f1: "?bad short_bundle" by blast
  have "(1::nat) < length sample_nets \<and> 0 < length (extract_individual (sample_nets ! 1)) \<and>
        \<not> shape_accepted (shape (sample_store (extract_individual (sample_nets ! 1) ! 0)))
                  (shape (sample_store (swapped_bundle ! 1 ! 0)))"
    by (simp add: sample_nets_def sample_extract swapped_bundle_def shape_accepted_def
        sample_store_def)
  then have f2: "?bad swapped_bundle" by blast
  have c: "consumed sample_nets surplus_bundle = exact_bundle"
    by (simp add: consumed_def sample_nets_def sample_extract surplus_bundle_def exact_bundle_def)
  from insert_params_mismatch [OF wf, of short_bundle sample_store] f1
  have a: "\<exists>e. insert_params sample_nets short_bundle sample_store = Inl e" by blast
  from insert_params_mismatch [OF wf, of swapped_bundle sample_store] f2
  have b: "\<exists>e. insert_params sample_nets swapped_bundle sample_store = Inl e" by blast
  from insert_params_mismatch [OF wf, of surplus_bundle sample_store] c
  have d: "insert_params sample_nets surplus_bundle sample_store =
     insert_params sample_nets exact_bundle sample_store" by simp
  from wf a b d show ?thesis by blast
qed

subsection \<open>C6: a missing gradient makes extract_grads raise\<close>

text \<open>
  C6. If some head parameter of some individual has no gradient, \<open>extract_grads\<close> raises
  (AttributeError, from \<open>None.detach()\<close>) and returns no bundle, so no zero or default
  stands in for the missing gradient. When every head parameter has a gradient, it returns
  the gradient tensors in the layout of the parameter bundle: entry by entry as many
  tensors as \<open>extract_params\<close> gives the same individual, each the gradient of the
  parameter at that position, of the same shape (torch keeps gradient and parameter of
  one shape).
\<close>

theorem extract_grads_contract:
  "(\<not> has_grad g nets \<longrightarrow> extract_grads g nets = Inl AttributeError) \<and>
   (has_grad g nets \<longrightarrow>
      (\<exists>gb. extract_grads g nets = Inr gb \<and>
            map length gb = map length (extract_params nets) \<and>
            (\<forall>i < length nets. \<forall>j < length (extract_params nets ! i).
               g (extract_params nets ! i ! j) = Some (gb ! i ! j)) \<and>
            (grads_wf st g \<longrightarrow>
               map (map (\<lambda>a. shape (st a))) gb =
               map (map (\<lambda>a. shape (st a))) (extract_params nets))))"
proof (intro conjI impI)
  assume "\<not> has_grad g nets"
  then show "extract_grads g nets = Inl AttributeError"
    by (simp add: extract_grads_def grads_population_eq)
next
  assume hg: "has_grad g nets"
  let ?gb = "map (map (the \<circ> g)) (extract_params nets)"
  have r: "extract_grads g nets = Inr ?gb"
    using hg by (simp add: extract_grads_def grads_population_eq)
  have some: "g p = Some (the (g p))" if "individual \<in> set nets" "p \<in> set (extract_individual individual)"
    for individual p
    using hg that unfolding has_grad_def by fastforce
  have l: "map length ?gb = map length (extract_params nets)" by simp
  have pos: "\<forall>i < length nets. \<forall>j < length (extract_params nets ! i).
               g (extract_params nets ! i ! j) = Some (?gb ! i ! j)"
  proof (intro allI impI)
    fix i j assume i: "i < length nets" and j: "j < length (extract_params nets ! i)"
    then have "extract_params nets ! i ! j \<in> set (extract_individual (nets ! i))"
      by (simp add: extract_params_eq)
    from some[OF nth_mem[OF i] this] i j show "g (extract_params nets ! i ! j) = Some (?gb ! i ! j)"
      by (simp add: extract_params_eq)
  qed
  have sh: "map (map (\<lambda>a. shape (st a))) ?gb = map (map (\<lambda>a. shape (st a))) (extract_params nets)"
    if wf: "grads_wf st g"
  proof -
    have "shape (st (the (g p))) = shape (st p)"
      if "individual \<in> set nets" "p \<in> set (extract_individual individual)" for individual p
      using some[OF that] wf unfolding grads_wf_def by blast
    then show ?thesis by (simp add: extract_params_eq)
  qed
  from r l pos sh show "\<exists>gb. extract_grads g nets = Inr gb \<and>
            map length gb = map length (extract_params nets) \<and>
            (\<forall>i < length nets. \<forall>j < length (extract_params nets ! i).
               g (extract_params nets ! i ! j) = Some (gb ! i ! j)) \<and>
            (grads_wf st g \<longrightarrow>
               map (map (\<lambda>a. shape (st a))) gb =
               map (map (\<lambda>a. shape (st a))) (extract_params nets))"
    by blast
qed

theorem extract_grads_contract_witness:
  "\<not> has_grad sample_grads_missing sample_nets \<and>
   extract_grads sample_grads_missing sample_nets = Inl AttributeError \<and>
   has_grad sample_grads sample_nets \<and> grads_wf sample_store sample_grads \<and>
   (\<exists>gb. extract_grads sample_grads sample_nets = Inr gb \<and>
         map (map (\<lambda>a. shape (sample_store a))) gb = [[[2, 3], [2]], [[2, 3], [2]]])"
proof -
  have ex: "extract_params sample_nets = [[0, 1], [2, 3]]"
    by (simp add: extract_params_eq extract_individual_eq sample_nets_def linear_layer_def)
  have m: "\<not> has_grad sample_grads_missing sample_nets"
    by (simp add: has_grad_def sample_grads_missing_def sample_nets_def extract_individual_eq
        linear_layer_def)
  have h: "has_grad sample_grads sample_nets"
    by (simp add: has_grad_def sample_grads_def sample_nets_def extract_individual_eq
        linear_layer_def)
  have wf: "grads_wf sample_store sample_grads"
    by (auto simp: grads_wf_def sample_grads_def sample_store_def split: if_splits)
  from extract_grads_contract [of sample_grads_missing sample_nets sample_store] m
  have a: "extract_grads sample_grads_missing sample_nets = Inl AttributeError" by blast
  from extract_grads_contract [of sample_grads sample_nets sample_store] h wf
  obtain gb where "extract_grads sample_grads sample_nets = Inr gb"
    "map (map (\<lambda>a. shape (sample_store a))) gb =
     map (map (\<lambda>a. shape (sample_store a))) (extract_params sample_nets)"
    by blast
  then have b: "\<exists>gb. extract_grads sample_grads sample_nets = Inr gb \<and>
         map (map (\<lambda>a. shape (sample_store a))) gb = [[[2, 3], [2]], [[2, 3], [2]]]"
    by (simp add: ex sample_store_def)
  from m a h wf b show ?thesis by blast
qed

subsection \<open>C7: the layout of the extracted bundle\<close>

text \<open>
  C7. The claim, like the docstring of \<open>extract_params\<close> (\<open>Indexed as
  [individual][layer][parameter]\<close>), has the entry of an individual hold one sub-sequence
  per head layer. The function returns another layout: for a population of two whose heads
  are a \<open>Linear\<close> layer, a \<open>ReLU\<close> and a \<open>Linear\<close> layer, the entry of an individual is
  the flat list of its four parameter tensors (the weight and the bias of each \<open>Linear\<close>
  layer), where the layout of the docstring has three sub-sequences, one per layer.
\<close>

theorem extract_params_flat:
  "init_model_layers sample_nn sample_net_config 2 (0::nat)
     = Inr (\<lparr>shared_net = [],
              policy_nets =
                [[linear_layer 0, \<lparr>named_parameters = [], named_buffers = []\<rparr>, linear_layer 2],
                 [linear_layer 4, \<lparr>named_parameters = [], named_buffers = []\<rparr>, linear_layer 6]],
              value_net = []\<rparr>, 8) \<and>
   extract_params
     [[linear_layer 0, \<lparr>named_parameters = [], named_buffers = []\<rparr>, linear_layer 2],
      [linear_layer 4, \<lparr>named_parameters = [], named_buffers = []\<rparr>, linear_layer 6]]
     = [[0, 1, 2, 3], [4, 5, 6, 7]] \<and>
   nested_layout
     [[linear_layer 0, \<lparr>named_parameters = [], named_buffers = []\<rparr>, linear_layer 2],
      [linear_layer 4, \<lparr>named_parameters = [], named_buffers = []\<rparr>, linear_layer 6]]
     = [[[0, 1], [], [2, 3]], [[4, 5], [], [6, 7]]]"
proof -
  let ?m = "\<lparr>shared_net = [],
              policy_nets =
                [[linear_layer 0, \<lparr>named_parameters = [], named_buffers = []\<rparr>, linear_layer 2],
                 [linear_layer 4, \<lparr>named_parameters = [], named_buffers = []\<rparr>, linear_layer 6]],
              value_net = []\<rparr>"
  have i: "init_model_layers sample_nn sample_net_config 2 (0::nat) = Inr (?m, 8)"
    by (simp add: init_model_layers_def add_layers_def add_layer_def sample_nn_def
        sample_net_config_def sample_head_config_def linear_layer_def numeral_2_eq_2)
  have n: "nested_layout (policy_nets ?m) = [[[0, 1], [], [2, 3]], [[4, 5], [], [6, 7]]]"
    by (simp add: nested_layout_def linear_layer_def)
  have e: "extract_params (policy_nets ?m) = [[0, 1, 2, 3], [4, 5, 6, 7]]"
    unfolding extract_params_nested n by simp
  from i n e show ?thesis by simp
qed

subsection \<open>C8: an unsupported test strategy\<close>




subsection \<open>C9: the weighted vote\<close>

text \<open>
  C9. Under weightedvote the selected action has the highest total of fitness-weighted
  votes among the actions of the environment, and an action with the same total as the
  selected one has a higher index, so ties go to the lowest index; the vote returns an
  action whenever there is at least one action and every proposed action is one of them.
  The totals are the ones the program computes, by floating-point additions in the order
  of the individuals, whatever the floating-point addition is. For fitnesses \<open>[1, 2, 5]\<close>
  and proposed actions \<open>[0, 1, 1]\<close> over two actions the totals are \<open>[1, 7]\<close> and action 1
  is selected, the three additions \<open>0 + 1\<close>, \<open>0 + 2\<close> and \<open>2 + 5\<close> having the results 1, 2
  and 7, which are floating-point numbers.
\<close>

theorem weighted_vote_selects:
  "(weighted_vote N n actions fitnesses = Inr a \<longrightarrow>
      a < n \<and>
      (\<forall>b < n. vote_total N actions fitnesses b \<le> vote_total N actions fitnesses a) \<and>
      (\<forall>b < n. b \<noteq> a \<and> vote_total N actions fitnesses b = vote_total N actions fitnesses a
                 \<longrightarrow> a < b)) \<and>
   (0 < n \<and> (\<forall>(act, w) \<in> set (zip actions fitnesses). act < n) \<longrightarrow>
      (\<exists>a'. weighted_vote N n actions fitnesses = Inr a')) \<and>
   (float_add N 0 1 = 1 \<and> float_add N 0 2 = 2 \<and> float_add N 2 5 = 7 \<longrightarrow>
      vote_total N [0, 1, 1] [1, 2, 5] 0 = 1 \<and>
      vote_total N [0, 1, 1] [1, 2, 5] 1 = 7 \<and>
      tally N (replicate 2 0) (zip [0, 1, 1] [1, 2, 5]) = Inr [1, 7] \<and>
      weighted_vote N 2 [0, 1, 1] [1, 2, 5] = Inr 1)"
proof (intro conjI impI)
  assume w: "weighted_vote N n actions fitnesses = Inr a"
  from weighted_vote_votes[OF w] obtain v where a: "np_argmax v = Inr a" and l: "length v = n"
    and v: "\<forall>k < n. v ! k = vote_total N actions fitnesses k" by blast
  note am = np_argmax_correct[OF a]
  show an: "a < n" using am l by simp
  show "\<forall>b < n. vote_total N actions fitnesses b \<le> vote_total N actions fitnesses a"
    using am l v an by metis
  show "\<forall>b < n. b \<noteq> a \<and> vote_total N actions fitnesses b = vote_total N actions fitnesses a
                 \<longrightarrow> a < b"
  proof (intro allI impI)
    fix b assume b: "b < n"
      and h: "b \<noteq> a \<and> vote_total N actions fitnesses b = vote_total N actions fitnesses a"
    show "a < b"
    proof (rule ccontr)
      assume "\<not> a < b"
      then have "b < a" using h by simp
      then have "v ! b < v ! a" using am by blast
      then show False using v b an h by simp
    qed
  qed
next
  assume h: "0 < n \<and> (\<forall>(act, w) \<in> set (zip actions fitnesses). act < n)"
  then obtain v where t: "tally N (replicate n 0) (zip actions fitnesses) = Inr v"
    using tally_iff[of N "replicate n 0" "zip actions fitnesses"] by auto
  from tally_votes[OF t] h have "v \<noteq> []" by auto
  from np_argmax_total[OF this] t show "\<exists>a'. weighted_vote N n actions fitnesses = Inr a'"
    by (simp add: weighted_vote_def)
next
  assume f: "float_add N 0 1 = 1 \<and> float_add N 0 2 = 2 \<and> float_add N 2 5 = 7"
  show "vote_total N [0, 1, 1] [1, 2, 5] 0 = 1"
    using f by (simp add: vote_total_def)
  show "vote_total N [0, 1, 1] [1, 2, 5] 1 = 7"
    using f by (simp add: vote_total_def)
  show t: "tally N (replicate 2 0) (zip [0, 1, 1] [1, 2, 5]) = Inr [1, 7]"
    using f by (simp add: numeral_2_eq_2)
  show "weighted_vote N 2 [0, 1, 1] [1, 2, 5] = Inr 1"
    unfolding weighted_vote_def t by (simp add: np_argmax_def)
qed

theorem weighted_vote_selects_witness:
  "weighted_vote exact_numerics 3 [0, 1, 1] [4, 2, 2] = Inr 0 \<and>
   vote_total exact_numerics [0, 1, 1] [4, 2, 2] 1 = vote_total exact_numerics [0, 1, 1] [4, 2, 2] 0 \<and>
   vote_total exact_numerics [0, 1, 1] [4, 2, 2] 2 \<le> vote_total exact_numerics [0, 1, 1] [4, 2, 2] 0 \<and>
   (\<exists>a'. weighted_vote exact_numerics 3 [0, 1, 1] [4, 2, 2] = Inr a') \<and>
   float_add exact_numerics 0 1 = 1 \<and> float_add exact_numerics 0 2 = 2 \<and>
   float_add exact_numerics 2 5 = 7 \<and>
   weighted_vote exact_numerics 2 [0, 1, 1] [1, 2, 5] = Inr 1 \<and>
   weighted_vote rounding_numerics 2 [0, 0, 1] [5, 1 / 2, 6] = Inr 0 \<and>
   vote_total rounding_numerics [0, 0, 1] [5, 1 / 2, 6] 0 = 6 \<and>
   vote_total rounding_numerics [0, 0, 1] [5, 1 / 2, 6] 1
     \<le> vote_total rounding_numerics [0, 0, 1] [5, 1 / 2, 6] 0"
proof -
  have w: "weighted_vote exact_numerics 3 [0, 1, 1] [4, 2, 2] = Inr 0"
    by (simp add: weighted_vote_def numeral_3_eq_3 np_argmax_def exact_numerics_def)
  have t: "vote_total exact_numerics [0, 1, 1] [4, 2, 2] 1
             = vote_total exact_numerics [0, 1, 1] [4, 2, 2] 0"
    by (simp add: vote_total_def exact_numerics_def)
  have r: "(0::nat) < 3 \<and> (\<forall>(act, w) \<in> set (zip [0, 1, 1] [4, 2, 2::real]). act < (3::nat))"
    by simp
  have f: "float_add exact_numerics 0 1 = 1 \<and> float_add exact_numerics 0 2 = 2 \<and>
           float_add exact_numerics 2 5 = 7"
    by (simp add: exact_numerics_def)
  have 2: "(2::nat) < 3" by simp
  from weighted_vote_selects [of exact_numerics 3 "[0, 1, 1]" "[4, 2, 2]" 0] w r t f 2
  have e: "weighted_vote exact_numerics 3 [0, 1, 1] [4, 2, 2] = Inr 0 \<and>
   vote_total exact_numerics [0, 1, 1] [4, 2, 2] 1 = vote_total exact_numerics [0, 1, 1] [4, 2, 2] 0 \<and>
   vote_total exact_numerics [0, 1, 1] [4, 2, 2] 2 \<le> vote_total exact_numerics [0, 1, 1] [4, 2, 2] 0 \<and>
   (\<exists>a'. weighted_vote exact_numerics 3 [0, 1, 1] [4, 2, 2] = Inr a') \<and>
   weighted_vote exact_numerics 2 [0, 1, 1] [1, 2, 5] = Inr 1"
    by blast
  have a: "float_add rounding_numerics 0 5 = 5" "float_add rounding_numerics 5 (1 / 2) = 6"
    "float_add rounding_numerics 0 6 = 6"
    by (simp_all add: rounding_numerics_def exact_numerics_def)
  have w': "weighted_vote rounding_numerics 2 [0, 0, 1] [5, 1 / 2, 6] = Inr 0"
    by (simp add: weighted_vote_def numeral_2_eq_2 np_argmax_def a)
  have t': "vote_total rounding_numerics [0, 0, 1] [5, 1 / 2, 6] 0 = 6"
    by (simp add: vote_total_def a)
  have 1: "(1::nat) < 2" by simp
  from weighted_vote_selects [of rounding_numerics 2 "[0, 0, 1]" "[5, 1 / 2, 6]" 0] w' 1
  have "vote_total rounding_numerics [0, 0, 1] [5, 1 / 2, 6] 1
     \<le> vote_total rounding_numerics [0, 0, 1] [5, 1 / 2, 6] 0"
    by blast
  with e f w' t' show ?thesis by blast
qed

subsection \<open>C10: an environment without a threshold\<close>

text \<open>
  C10 as stated says that for every environment identifier other than \<open>CartPole-v1\<close> and
  \<open>LunarLander-v2\<close> the runner is constructed and the threshold comparison of the first
  periodic evaluation aborts the run with the missing-attribute error. For the
  identifier \<open>CartPole-v0\<close> and a print interval of 0 the run is aborted by the
  ZeroDivisionError of the print test, which comes before the comparison; and for an
  identifier that \<open>gym.make\<close> does not know no runner is constructed.
\<close>

theorem missing_stop_fit_counterexample:
  "exp_env zero_print_config = ''CartPole-v0'' \<and>
   init_runner sample_gym_make sample_logger False zero_print_config
     = Inr (sample_runner zero_print_config None 1) \<and>
   run_experiment sample_setup sample_world linear_net_config
     (sample_runner zero_print_config None 1)
     = Inr (Crashed 0 ZeroDivisionError,
            [ResetStorage 0, RunEpisode 0 0, RunEpisode 0 1, UpdateEvoAC 0,
             TestAlgorithm 0 sample_store 100, SaveFitnesses 0 100]) \<and>
   exp_env unknown_env_config = ''NoSuchEnv-v0'' \<and>
   init_runner sample_gym_make sample_logger False unknown_env_config = Inl CollaboratorError"
proof -
  have c: "exp_log_interval zero_print_config \<le> 9999999" "evo_pop_size zero_print_config = 2"
    "exp_print_interval zero_print_config = 0" "exp_env zero_print_config = ''CartPole-v0''"
    "exp_env unknown_env_config = ''NoSuchEnv-v0''"
    by (simp_all add: zero_print_config_def cartpole_v0_config_def unknown_env_config_def
        sample_config_def)
  from sample_run_unset[OF c(1,2), of 1] c(3-5) sample_init(3,4)
  show ?thesis by simp
qed

text \<open>
  C10, amended. For an environment identifier other than \<open>CartPole-v1\<close> and
  \<open>LunarLander-v2\<close> the constructor assigns no \<open>stop_fit\<close>, there is no default, and the
  constructor does not reject the identifier: it succeeds whenever \<open>gym.make\<close> and the
  constructor of the logger do. In a run of such a runner the first periodic evaluation
  that returns a fitness is the last thing that happens but its logging, and the run is
  aborted in that generation: by the missing-attribute error of the threshold comparison
  when the print interval is not 0, by the ZeroDivisionError of the print test when it
  is 0; so the run never ends by the fitness or the timestep break. When the set-up of
  the run and the update of generation 0 succeed, the evaluation returns and the log
  interval is at most 9999999, this happens in generation 0.
\<close>

theorem missing_stop_fit:
  assumes "exp_env cfg \<noteq> ''CartPole-v1''" "exp_env cfg \<noteq> ''LunarLander-v2''"
  shows "(gym_make (exp_env cfg) = Inr e1 \<and> evoac_logger cfg = Inr lg \<longrightarrow>
            (\<exists>r'. init_runner gym_make evoac_logger cuda cfg = Inr r' \<and> stop_fit r' = None \<and>
                   config r' = cfg \<and> env r' = e1 \<and> test_env r' = e1 \<and> logger r' = lg)) \<and>
         (init_runner gym_make evoac_logger cuda cfg = Inr r \<longrightarrow>
            stop_fit r = None \<and> config r = cfg) \<and>
         (init_runner gym_make evoac_logger cuda cfg = Inr r \<and>
          run_experiment S W net_cfg r = Inr (out, tr) \<longrightarrow>
            never_after is_test (\<lambda>e. \<not> is_logging e) tr \<and>
            (\<forall>g st f. TestAlgorithm g st f \<in> set tr \<longrightarrow>
               out = Crashed g (if exp_print_interval cfg = 0 then ZeroDivisionError
                                else AttributeError)) \<and>
            (\<forall>g. out \<noteq> StoppedByFitness g \<and> out \<noteq> StoppedByBudget g)) \<and>
         (init_runner gym_make evoac_logger cuda cfg = Inr r \<and>
          reset_experiment S net_cfg r = Inr (m, st0) \<and> exp_log_interval cfg \<le> 9999999 \<and>
          update_evo_ac W (policy_nets m) 0 st0 = Inr (st2, b) \<and>
          test_algorithm W 0 st2 = Inr f \<longrightarrow>
            run_experiment S W net_cfg r =
              Inr (Crashed 0 (if exp_print_interval cfg = 0 then ZeroDivisionError
                              else AttributeError),
                   ResetStorage 0 # map (RunEpisode 0) [0..<evo_pop_size cfg] @
                   [UpdateEvoAC 0, TestAlgorithm 0 st2 f, SaveFitnesses 0 f] @
                   (if exp_print_interval cfg = 0 then [] else [PrintData 0])))"
proof (intro conjI impI allI)
  assume h: "gym_make (exp_env cfg) = Inr e1 \<and> evoac_logger cfg = Inr lg"
  then obtain r' where r': "init_runner gym_make evoac_logger cuda cfg = Inr r'"
    "config r' = cfg \<and> env r' = e1 \<and> test_env r' = e1 \<and> logger r' = lg"
    using init_runner_succeeds[of gym_make cfg e1 evoac_logger lg cuda] by blast
  from init_runner_no_threshold[OF assms r'(1)] r'
  show "\<exists>r'. init_runner gym_make evoac_logger cuda cfg = Inr r' \<and> stop_fit r' = None \<and>
                   config r' = cfg \<and> env r' = e1 \<and> test_env r' = e1 \<and> logger r' = lg"
    by blast
next
  assume i: "init_runner gym_make evoac_logger cuda cfg = Inr r"
  show "stop_fit r = None" by (rule init_runner_no_threshold[OF assms i])
  show "config r = cfg" by (rule init_runner_config[OF i])
next
  assume h: "init_runner gym_make evoac_logger cuda cfg = Inr r \<and>
          run_experiment S W net_cfg r = Inr (out, tr)"
  then have i: "init_runner gym_make evoac_logger cuda cfg = Inr r" by simp
  note sf = init_runner_no_threshold[OF assms i] and cf = init_runner_config[OF i]
  from h obtain m :: evoac_model and st0 where
    l: "gen_loop W cfg None (policy_nets m) 10000 0
          \<lparr>timesteps = 0, last_log = - 9999999, model = st0\<rparr> = (out, tr)"
    unfolding run_experiment_def sf cf
    by (auto split: sum.splits simp del: gen_loop.simps)
  show "never_after is_test (\<lambda>e. \<not> is_logging e) tr" using unset_core[OF l] by blast
  show "out = Crashed g (if exp_print_interval cfg = 0 then ZeroDivisionError
                         else AttributeError)"
    if "TestAlgorithm g st f \<in> set tr" for g st f
    using unset_core[OF l, of g st f] that by blast
  show "out \<noteq> StoppedByFitness g" for g using unset_core[OF l, of g] by blast
  show "out \<noteq> StoppedByBudget g" for g using unset_core[OF l, of g] by blast
next
  assume h: "init_runner gym_make evoac_logger cuda cfg = Inr r \<and>
          reset_experiment S net_cfg r = Inr (m, st0) \<and> exp_log_interval cfg \<le> 9999999 \<and>
          update_evo_ac W (policy_nets m) 0 st0 = Inr (st2, b) \<and>
          test_algorithm W 0 st2 = Inr f"
  then have i: "init_runner gym_make evoac_logger cuda cfg = Inr r" by simp
  note sf = init_runner_no_threshold[OF assms i] and cf = init_runner_config[OF i]
  from h have "exp_log_interval cfg \<le> 9999999"
    "update_evo_ac W (policy_nets m) 0 st0 = Inr (st2, b)" "test_algorithm W 0 st2 = Inr f"
    by simp_all
  from first_generation_unset[OF this] h
  show "run_experiment S W net_cfg r =
              Inr (Crashed 0 (if exp_print_interval cfg = 0 then ZeroDivisionError
                              else AttributeError),
                   ResetStorage 0 # map (RunEpisode 0) [0..<evo_pop_size cfg] @
                   [UpdateEvoAC 0, TestAlgorithm 0 st2 f, SaveFitnesses 0 f] @
                   (if exp_print_interval cfg = 0 then [] else [PrintData 0]))"
    unfolding run_experiment_def sf cf by (simp del: gen_loop.simps)
qed

theorem missing_stop_fit_witness:
  "exp_env cartpole_v0_config \<noteq> ''CartPole-v1'' \<and>
   exp_env cartpole_v0_config \<noteq> ''LunarLander-v2'' \<and>
   sample_gym_make (exp_env cartpole_v0_config) = Inr 1 \<and>
   sample_logger cartpole_v0_config = Inr () \<and>
   init_runner sample_gym_make sample_logger False cartpole_v0_config
     = Inr (sample_runner cartpole_v0_config None 1) \<and>
   stop_fit (sample_runner cartpole_v0_config None 1) = None \<and>
   run_experiment sample_setup sample_world linear_net_config
     (sample_runner cartpole_v0_config None 1)
     = Inr (Crashed 0 AttributeError,
            [ResetStorage 0, RunEpisode 0 0, RunEpisode 0 1, UpdateEvoAC 0,
             TestAlgorithm 0 sample_store 100, SaveFitnesses 0 100, PrintData 0]) \<and>
   never_after is_test (\<lambda>e. \<not> is_logging e)
     [ResetStorage 0, RunEpisode 0 0, RunEpisode 0 1, UpdateEvoAC 0,
      TestAlgorithm 0 sample_store 100, SaveFitnesses 0 100, PrintData 0]"
proof -
  let ?r = "sample_runner cartpole_v0_config None 1"
  let ?m = "\<lparr>shared_net = [], policy_nets = sample_nets, value_net = []\<rparr>"
  let ?tr = "[ResetStorage 0, RunEpisode 0 0, RunEpisode 0 1, UpdateEvoAC 0,
      TestAlgorithm 0 sample_store 100, SaveFitnesses 0 100, PrintData 0]"
  have c: "exp_env cartpole_v0_config \<noteq> ''CartPole-v1''"
    "exp_env cartpole_v0_config \<noteq> ''LunarLander-v2''"
    "exp_log_interval cartpole_v0_config \<le> 9999999" "evo_pop_size cartpole_v0_config = 2"
    "exp_print_interval cartpole_v0_config \<noteq> 0"
    by (simp_all add: cartpole_v0_config_def sample_config_def)
  have g: "sample_gym_make (exp_env cartpole_v0_config) = Inr 1"
    "sample_logger cartpole_v0_config = Inr ()"
    by (simp_all add: sample_gym_make_def sample_logger_def cartpole_v0_config_def
        sample_config_def)
  note i = sample_init(2)
  note rs = sample_reset[OF c(4), of None 1]
  have t: "test_algorithm sample_world 0 sample_store = Inr 100"
    by (simp add: sample_world_def)
  have p: "policy_nets ?m = sample_nets" by simp
  note th = missing_stop_fit [OF c(1,2), where gym_make = sample_gym_make
      and evoac_logger = sample_logger and cuda = False and ?e1.0 = 1 and lg = "()"
      and r = ?r and S = sample_setup and W = sample_world and net_cfg = linear_net_config
      and m = ?m and ?st0.0 = sample_store and ?st2.0 = sample_store and b = exact_bundle
      and f = 100 and out = "Crashed 0 AttributeError" and tr = ?tr]
  from th i have sf: "stop_fit ?r = None" by blast
  from th i rs c(3) sample_update(1) t p
  have run: "run_experiment sample_setup sample_world linear_net_config ?r =
      Inr (Crashed 0 (if exp_print_interval cartpole_v0_config = 0 then ZeroDivisionError
                      else AttributeError),
           ResetStorage 0 # map (RunEpisode 0) [0..<evo_pop_size cartpole_v0_config] @
           [UpdateEvoAC 0, TestAlgorithm 0 sample_store 100, SaveFitnesses 0 100] @
           (if exp_print_interval cartpole_v0_config = 0 then [] else [PrintData 0]))"
    by simp
  then have run': "run_experiment sample_setup sample_world linear_net_config ?r =
      Inr (Crashed 0 AttributeError, ?tr)"
    using c(4,5) by (simp add: sample_range)
  from th i run' have "never_after is_test (\<lambda>e. \<not> is_logging e) ?tr" by blast
  with c(1,2) g i sf run' show ?thesis by blast
qed

end
